theory Spec2Isabelle
  imports Complex_Main "HOL-Library.Sublist" "HOL-Library.AList" "HOL-Library.Extended_Nat"
begin

section \<open>JavaScript strings and values\<close>

text \<open>
  A JavaScript string is a sequence of code units. It is modelled as a \<^typ>\<open>string\<close>, one
  \<^typ>\<open>char\<close> per code unit; a \<^typ>\<open>char\<close> is a byte, read as the code point of the same
  number, so the strings of the model are those over \<open>U+0000\<close> to \<open>U+00FF\<close>.

  \<open>toLowerCase()\<close> maps every capital letter of that range to its small letter, which is
  32 code points above it: \<open>A\<close> to \<open>Z\<close>, and \<open>U+00C0\<close> to \<open>U+00DE\<close> without the
  multiplication sign \<open>U+00D7\<close>. No other character of the range is changed.
\<close>

definition capitalLetters :: string where
  "capitalLetters = ''ABCDEFGHIJKLMNOPQRSTUVWXYZ'' @
     [CHR 0xC0, CHR 0xC1, CHR 0xC2, CHR 0xC3, CHR 0xC4, CHR 0xC5, CHR 0xC6, CHR 0xC7,
      CHR 0xC8, CHR 0xC9, CHR 0xCA, CHR 0xCB, CHR 0xCC, CHR 0xCD, CHR 0xCE, CHR 0xCF,
      CHR 0xD0, CHR 0xD1, CHR 0xD2, CHR 0xD3, CHR 0xD4, CHR 0xD5, CHR 0xD6,
      CHR 0xD8, CHR 0xD9, CHR 0xDA, CHR 0xDB, CHR 0xDC, CHR 0xDD, CHR 0xDE]"

definition smallLetters :: string where
  "smallLetters = ''abcdefghijklmnopqrstuvwxyz'' @
     [CHR 0xE0, CHR 0xE1, CHR 0xE2, CHR 0xE3, CHR 0xE4, CHR 0xE5, CHR 0xE6, CHR 0xE7,
      CHR 0xE8, CHR 0xE9, CHR 0xEA, CHR 0xEB, CHR 0xEC, CHR 0xED, CHR 0xEE, CHR 0xEF,
      CHR 0xF0, CHR 0xF1, CHR 0xF2, CHR 0xF3, CHR 0xF4, CHR 0xF5, CHR 0xF6,
      CHR 0xF8, CHR 0xF9, CHR 0xFA, CHR 0xFB, CHR 0xFC, CHR 0xFD, CHR 0xFE]"

definition toLowerCaseChar :: "char \<Rightarrow> char" where
  "toLowerCaseChar c =
     (case map_of (zip capitalLetters smallLetters) c of
        Some l \<Rightarrow> l
      | None \<Rightarrow> c)"

definition toLowerCase :: "string \<Rightarrow> string" where
  "toLowerCase s = map toLowerCaseChar s"

text \<open>\<open>s.startsWith(t)\<close>\<close>

fun startsWith :: "string \<Rightarrow> string \<Rightarrow> bool" where
  "startsWith s [] = True"
| "startsWith [] (y # t) = False"
| "startsWith (x # s) (y # t) = (x = y \<and> startsWith s t)"

text \<open>\<open>s.includes(t)\<close>: \<open>t\<close> occurs in \<open>s\<close> at some position.\<close>

fun includes_str :: "string \<Rightarrow> string \<Rightarrow> bool" where
  "includes_str [] t = (t = [])"
| "includes_str (x # s) t = (startsWith (x # s) t \<or> includes_str s t)"

text \<open>
  White space as matched by \<open>\s\<close> and removed by \<open>trim()\<close>: the space, the control
  characters from tab to carriage return, and the no-break space \<open>U+00A0\<close>.
\<close>

definition isSpace :: "char \<Rightarrow> bool" where
  "isSpace c =
     (c \<in> set [CHR '' '', CHR 0x09, CHR 0x0A, CHR 0x0B, CHR 0x0C, CHR 0x0D, CHR 0xA0])"

text \<open>Word characters as matched by \<open>\w\<close>: ASCII letters, digits and the underscore.\<close>

definition isWordChar :: "char \<Rightarrow> bool" where
  "isWordChar c =
     (c \<in> set ''abcdefghijklmnopqrstuvwxyzABCDEFGHIJKLMNOPQRSTUVWXYZ0123456789_'')"

definition trim :: "string \<Rightarrow> string" where
  "trim s = rev (dropWhile isSpace (rev (dropWhile isSpace s)))"

text \<open>
  The values a search criterion or an entity property can hold. Arrays, dates, maps and
  functions are objects: \<open>===\<close> compares them by reference, and a criterion never holds
  the reference of an object that an entity holds, so they are equal to nothing here.
\<close>

datatype JsValue =
  JsUndefined | JsNull | JsBoolean bool | JsString string | JsNumber int | JsObject

text \<open>\<open>a === b\<close>\<close>

fun strictEquals :: "JsValue \<Rightarrow> JsValue \<Rightarrow> bool" where
  "strictEquals JsObject b = False"
| "strictEquals a JsObject = False"
| "strictEquals a b = (a = b)"

text \<open>Truthiness of an optional string: \<open>undefined\<close> and the empty string are falsy.\<close>

fun truthy :: "string option \<Rightarrow> bool" where
  "truthy None = False"
| "truthy (Some s) = (s \<noteq> [])"

text \<open>\<open>a || b\<close> on strings\<close>

definition orElse :: "string option \<Rightarrow> string \<Rightarrow> string" where
  "orElse a b = (case a of Some s \<Rightarrow> (if s = [] then b else s) | None \<Rightarrow> b)"

section \<open>JavaScript \<open>Map\<close>\<close>

text \<open>
  A \<open>Map\<close> keeps its entries in insertion order; \<open>set\<close> on a present key replaces the
  value in place. It is modelled as an association list.
\<close>

definition map_get :: "('k \<times> 'v) list \<Rightarrow> 'k \<Rightarrow> 'v option" where
  "map_get m k = map_of m k"

definition map_has :: "('k \<times> 'v) list \<Rightarrow> 'k \<Rightarrow> bool" where
  "map_has m k = (map_of m k \<noteq> None)"

definition map_set :: "('k \<times> 'v) list \<Rightarrow> 'k \<Rightarrow> 'v \<Rightarrow> ('k \<times> 'v) list" where
  "map_set m k v = AList.update k v m"

definition map_delete :: "('k \<times> 'v) list \<Rightarrow> 'k \<Rightarrow> ('k \<times> 'v) list" where
  "map_delete m k = AList.delete k m"

definition map_values :: "('k \<times> 'v) list \<Rightarrow> 'v list" where
  "map_values m = map snd m"

definition map_keys :: "('k \<times> 'v) list \<Rightarrow> 'k list" where
  "map_keys m = map fst m"

section \<open>Topic (models/Topic.ts)\<close>

text \<open>
  Topics are objects: the repository's maps, the version maps and the \<open>childTopics\<close> map of
  another topic may all hold the same object, and several methods assign to its fields.
  Objects therefore live in a store, a list indexed by address; a reference is an address.
\<close>

type_synonym addr = nat

text \<open>
  The version is a JavaScript number, a double. The model holds the integral ones as
  \<^typ>\<open>int\<close>, and a sum is rounded as the addition of doubles rounds it: to the nearest
  double, and of two nearest ones to that with the even significand. \<open>bitLength m\<close> is the
  number of binary digits of \<open>m\<close>; an integer of at most 53 digits is a double.
\<close>

function bitLength :: "int \<Rightarrow> nat" where
  "bitLength m = (if m \<le> 0 then 0 else Suc (bitLength (m div 2)))"
  by pat_completeness auto
termination
  by (relation "measure nat") auto

declare bitLength.simps [simp del]

definition roundToDouble :: "int \<Rightarrow> int" where
  "roundToDouble x =
     (let m = \<bar>x\<bar> in
      if bitLength m \<le> 53 then x
      else
        let e = bitLength m - 53;
            q = m div 2 ^ e;
            r = m mod 2 ^ e;
            q' = (if 2 ^ e < 2 * r \<or> (2 * r = 2 ^ e \<and> odd q) then q + 1 else q)
        in sgn x * (q' * 2 ^ e))"

text \<open>\<open>a + b\<close> on numbers\<close>

definition jsAdd :: "int \<Rightarrow> int \<Rightarrow> int" where
  "jsAdd a b = roundToDouble (a + b)"

record Topic =
  topic_id :: string
  createdAt :: nat
  updatedAt :: nat
  name :: string
  content :: string
  version :: int
  parentId :: "string option"
  children :: "string list"
  childTopics :: "(string \<times> addr) list"

text \<open>
  \<open>new Topic(name, content, parentId, id, version)\<close>. The identifier is \<open>id || uuidv4()\<close>;
  the fresh UUID is the parameter \<open>uuid\<close>. The version defaults to 1. \<open>now\<close> is the clock.
\<close>

definition new_Topic ::
  "string \<Rightarrow> string \<Rightarrow> string option \<Rightarrow> string option \<Rightarrow> int option \<Rightarrow> string \<Rightarrow> nat \<Rightarrow> Topic" where
  "new_Topic nm ct par ident ver uuid now =
     \<lparr> topic_id = orElse ident uuid, createdAt = now, updatedAt = now,
       name = nm, content = ct,
       version = (case ver of None \<Rightarrow> 1 | Some v \<Rightarrow> v),
       parentId = par, children = [], childTopics = [] \<rparr>"

text \<open>\<open>Topic.validate()\<close>: the list of violated rules.\<close>

definition validate :: "Topic \<Rightarrow> string list" where
  "validate t =
     (if name t = [] \<or> length (trim (name t)) = 0 then [''Topic name is required''] else []) @
     (if name t \<noteq> [] \<and> length (name t) > 200
      then [''Topic name must be less than 200 characters''] else []) @
     (if content t = [] \<or> length (trim (content t)) = 0
      then [''Topic content is required''] else []) @
     (if version t < 1 then [''Version must be a positive number''] else []) @
     (if parentId t = Some (topic_id t) then [''Topic cannot be its own parent''] else [])"

definition isValid :: "Topic \<Rightarrow> bool" where
  "isValid t = (length (validate t) = 0)"

text \<open>
  \<open>Topic.createNewVersion(newContent, newName)\<close>: a new object with the same id and parent,
  the version incremented, and copies of the children list and of the \<open>childTopics\<close> map.
  The constructor is given \<open>this.id\<close>, so no UUID is drawn.
\<close>

definition createNewVersion_topic :: "Topic \<Rightarrow> string option \<Rightarrow> string option \<Rightarrow> nat \<Rightarrow> Topic" where
  "createNewVersion_topic this newContent newName now =
     (new_Topic (orElse newName (name this)) (orElse newContent (content this))
        (parentId this) (Some (topic_id this)) (Some (jsAdd (version this) 1)) (topic_id this) now)
       \<lparr> children := children this, childTopics := childTopics this \<rparr>"

section \<open>The repositories' state\<close>

datatype UserRole = ADMIN | EDITOR | VIEWER

text \<open>The permission strategies of \<open>models/User.ts\<close>.\<close>

fun canUpdate :: "UserRole \<Rightarrow> bool" where
  "canUpdate ADMIN = True"
| "canUpdate EDITOR = True"
| "canUpdate VIEWER = False"

fun canDelete :: "UserRole \<Rightarrow> bool" where
  "canDelete ADMIN = True"
| "canDelete EDITOR = False"
| "canDelete VIEWER = False"

text \<open>
  \<open>heap\<close> is the object store; \<open>data\<close> is \<open>BaseRepository.data\<close>, the live record of each
  id; \<open>versionData\<close> is \<open>TopicRepository.versionData\<close>, the version map of each id;
  \<open>users\<close> is the user repository's \<open>data\<close> (only the role matters here); \<open>clock\<close> is
  what \<open>new Date()\<close> returns. Writing the JSON files (\<open>save\<close>) is outside the model.
\<close>

record store =
  heap :: "Topic list"
  data :: "(string \<times> addr) list"
  versionData :: "(string \<times> (int \<times> addr) list) list"
  users :: "(string \<times> UserRole) list"
  clock :: nat

definition deref :: "store \<Rightarrow> addr \<Rightarrow> Topic" where
  "deref s a = heap s ! a"

definition assign :: "store \<Rightarrow> addr \<Rightarrow> Topic \<Rightarrow> store" where
  "assign s a t = s\<lparr> heap := (heap s)[a := t] \<rparr>"

text \<open>Allocating a new object: it gets the next address.\<close>

definition alloc :: "store \<Rightarrow> Topic \<Rightarrow> addr \<times> store" where
  "alloc s t = (length (heap s), s\<lparr> heap := heap s @ [t] \<rparr>)"

datatype error =
    ValidationFailed "string list"
  | TopicNotFound string
  | ParentTopicNotFound
  | ParentTopicWithIdNotFound string
  | CircularReferenceError
  | HasChildrenError
  | InsufficientPermissions
  | NameAndContentRequired

section \<open>BaseRepository (repositories/BaseRepository.ts)\<close>

definition findById :: "store \<Rightarrow> string \<Rightarrow> addr option" where
  "findById s i = map_get (data s) i"

definition findAll :: "store \<Rightarrow> addr list" where
  "findAll s = map_values (data s)"

definition exists_topic :: "store \<Rightarrow> string \<Rightarrow> bool" where
  "exists_topic s i = map_has (data s) i"

text \<open>
  The members a topic inherits: the methods of \<open>Topic\<close> and of \<open>BaseEntity\<close>, and the
  members of \<open>Object.prototype\<close>. Reading one of them yields a function or the prototype.
\<close>

definition inheritedMembers :: "string list" where
  "inheritedMembers =
     [''constructor'', ''validate'', ''createNewVersion'', ''addChild'', ''removeChild'',
      ''getChildren'', ''hasChildren'', ''getDepth'', ''getAllDescendants'', ''isAncestorOf'',
      ''clone'', ''toJSON'',
      ''touch'', ''equals'', ''toString'', ''update'',
      ''hasOwnProperty'', ''isPrototypeOf'', ''propertyIsEnumerable'', ''toLocaleString'',
      ''valueOf'', ''__proto__'', ''__defineGetter__'', ''__defineSetter__'',
      ''__lookupGetter__'', ''__lookupSetter__'']"

text \<open>
  \<open>(entity as any)[key]\<close>: an own property of the topic, else an inherited member, else
  \<open>undefined\<close>.
\<close>

definition property :: "Topic \<Rightarrow> string \<Rightarrow> JsValue" where
  "property t key =
     (if key = ''id'' then JsString (topic_id t)
      else if key = ''name'' then JsString (name t)
      else if key = ''content'' then JsString (content t)
      else if key = ''version'' then JsNumber (version t)
      else if key = ''parentId'' then (case parentId t of None \<Rightarrow> JsUndefined | Some p \<Rightarrow> JsString p)
      else if key \<in> set [''children'', ''childTopics'', ''createdAt'', ''updatedAt''] then JsObject
      else if key \<in> set inheritedMembers then JsObject
      else JsUndefined)"

text \<open>One entry of the criteria against one entity, as in the callback of \<open>findBy\<close>.\<close>

definition criterionHolds :: "Topic \<Rightarrow> string \<times> JsValue \<Rightarrow> bool" where
  "criterionHolds entity kv =
     (let entityValue = property entity (fst kv); val = snd kv in
      if val = JsNull \<or> val = JsUndefined then strictEquals entityValue val
      else (case (val, entityValue) of
              (JsString v, JsString ev) \<Rightarrow> includes_str (toLowerCase ev) (toLowerCase v)
            | _ \<Rightarrow> strictEquals entityValue val))"

definition findBy :: "store \<Rightarrow> (string \<times> JsValue) list \<Rightarrow> addr list" where
  "findBy s criteria =
     filter (\<lambda>a. list_all (criterionHolds (deref s a)) criteria) (map_values (data s))"

section \<open>TopicRepository (repositories/TopicRepository.ts)\<close>

definition findByParentId :: "store \<Rightarrow> string \<Rightarrow> addr list" where
  "findByParentId s p = findBy s [(''parentId'', JsString p)]"

definition canDelete_topic :: "store \<Rightarrow> string \<Rightarrow> bool" where
  "canDelete_topic s i = (length (findByParentId s i) = 0)"

text \<open>\<open>findByVersion\<close>: \<open>versionMap.get(version) || null\<close>\<close>

definition findByVersion :: "store \<Rightarrow> string \<Rightarrow> int \<Rightarrow> addr option" where
  "findByVersion s tid v =
     (case map_get (versionData s) tid of
        None \<Rightarrow> None
      | Some versionMap \<Rightarrow> map_get versionMap v)"

text \<open>\<open>getAllVersions\<close>: the versions of a topic, latest first (the sort is stable).\<close>

definition getAllVersions :: "store \<Rightarrow> string \<Rightarrow> addr list" where
  "getAllVersions s tid =
     (case map_get (versionData s) tid of
        None \<Rightarrow> []
      | Some versionMap \<Rightarrow> sort_key (\<lambda>a. - version (deref s a)) (map_values versionMap))"

text \<open>
  \<open>TopicRepository.createNewVersion(topicId, updatedTopic)\<close>. Only the content and the name
  of \<open>updatedTopic\<close> are read. An operation returns its outcome and the state it leaves,
  also when it throws.
\<close>

definition createNewVersion :: "store \<Rightarrow> string \<Rightarrow> Topic \<Rightarrow> (error + addr) \<times> store" where
  "createNewVersion s tid updatedTopic =
     (case findById s tid of
        None \<Rightarrow> (Inl (TopicNotFound tid), s)
      | Some existingTopic \<Rightarrow>
          let newVersion = createNewVersion_topic (deref s existingTopic)
                             (Some (content updatedTopic)) (Some (name updatedTopic)) (clock s);
              (a, s1) = alloc s newVersion;
              versionMap = (case map_get (versionData s1) tid of None \<Rightarrow> [] | Some m \<Rightarrow> m);
              s2 = s1\<lparr> versionData :=
                        map_set (versionData s1) tid (map_set versionMap (version newVersion) a) \<rparr>;
              s3 = s2\<lparr> data := map_set (data s2) tid a \<rparr>
          in (Inr a, s3))"

text \<open>\<open>BaseRepository.create(entity)\<close>\<close>

definition create_base :: "store \<Rightarrow> addr \<Rightarrow> (error + addr) \<times> store" where
  "create_base s entity =
     (if \<not> isValid (deref s entity) then (Inl (ValidationFailed (validate (deref s entity))), s)
      else (Inr entity, s\<lparr> data := map_set (data s) (topic_id (deref s entity)) entity \<rparr>))"

text \<open>\<open>TopicRepository.create(topic)\<close>\<close>

definition create_topic :: "store \<Rightarrow> addr \<Rightarrow> (error + addr) \<times> store" where
  "create_topic s topic =
     (if exists_topic s (topic_id (deref s topic))
      then createNewVersion s (topic_id (deref s topic)) (deref s topic)
      else
        let versionMap = map_set [] (version (deref s topic)) topic;
            s1 = s\<lparr> versionData := map_set (versionData s) (topic_id (deref s topic)) versionMap \<rparr>
        in create_base s1 topic)"

text \<open>\<open>BaseRepository.delete(id)\<close>\<close>

definition delete_base :: "store \<Rightarrow> string \<Rightarrow> bool \<times> store" where
  "delete_base s i = (map_has (data s) i, s\<lparr> data := map_delete (data s) i \<rparr>)"

text \<open>\<open>TopicRepository.delete(id)\<close>\<close>

definition delete_topic :: "store \<Rightarrow> string \<Rightarrow> (error + bool) \<times> store" where
  "delete_topic s i =
     (if \<not> canDelete_topic s i then (Inl HasChildrenError, s)
      else
        let s1 = s\<lparr> versionData := map_delete (versionData s) i \<rparr>;
            (deleted, s2) = delete_base s1 i
        in (Inr deleted, s2))"

subsection \<open>The composite: children held by the topic objects\<close>

text \<open>\<open>BaseEntity.touch()\<close>\<close>

definition touch :: "store \<Rightarrow> addr \<Rightarrow> store" where
  "touch s this = assign s this ((deref s this)\<lparr> updatedAt := clock s \<rparr>)"

text \<open>\<open>Topic.addChild(child)\<close>, statement by statement.\<close>

definition addChild :: "store \<Rightarrow> addr \<Rightarrow> addr \<Rightarrow> store" where
  "addChild s this child =
     (if topic_id (deref s child) \<in> set (children (deref s this)) then s
      else
        let s1 = assign s this
                   ((deref s this)\<lparr> children := children (deref s this) @ [topic_id (deref s child)] \<rparr>);
            s2 = assign s1 this
                   ((deref s1 this)\<lparr> childTopics :=
                        map_set (childTopics (deref s1 this)) (topic_id (deref s1 child)) child \<rparr>);
            s3 = assign s2 child ((deref s2 child)\<lparr> parentId := Some (topic_id (deref s2 this)) \<rparr>)
        in touch s3 this)"

text \<open>\<open>Topic.getChildren()\<close>\<close>

definition getChildren :: "store \<Rightarrow> addr \<Rightarrow> addr list" where
  "getChildren s this = map_values (childTopics (deref s this))"

text \<open>
  \<open>TopicRepository.loadChildrenRecursively(topic)\<close>. The recursion has no visited set and
  need not end; the first argument bounds its depth, and \<open>None\<close> means the bound was reached.
  \<open>loadChildren_loop\<close> is the \<open>for\<close> loop over the children found on entry.
\<close>

fun loadChildrenRecursively :: "nat \<Rightarrow> store \<Rightarrow> addr \<Rightarrow> store option"
  and loadChildren_loop :: "nat \<Rightarrow> store \<Rightarrow> addr \<Rightarrow> addr list \<Rightarrow> store option" where
  "loadChildrenRecursively 0 s topic = None"
| "loadChildrenRecursively (Suc n) s topic =
     loadChildren_loop n s topic (findByParentId s (topic_id (deref s topic)))"
| "loadChildren_loop n s topic [] = Some s"
| "loadChildren_loop n s topic (child # rest) =
     (case loadChildrenRecursively n (addChild s topic child) child of
        None \<Rightarrow> None
      | Some s' \<Rightarrow> loadChildren_loop n s' topic rest)"

text \<open>\<open>Topic.getAllDescendants()\<close>, over the \<open>childTopics\<close> maps; bounded in the same way.\<close>

fun getAllDescendants_topic :: "nat \<Rightarrow> store \<Rightarrow> addr \<Rightarrow> addr list option"
  and getAllDescendants_loop :: "nat \<Rightarrow> store \<Rightarrow> addr list \<Rightarrow> addr list \<Rightarrow> addr list option" where
  "getAllDescendants_topic 0 s this = None"
| "getAllDescendants_topic (Suc n) s this = getAllDescendants_loop n s (getChildren s this) []"
| "getAllDescendants_loop n s [] descendants = Some descendants"
| "getAllDescendants_loop n s (child # rest) descendants =
     (case getAllDescendants_topic n s child of
        None \<Rightarrow> None
      | Some ds \<Rightarrow> getAllDescendants_loop n s rest (descendants @ [child] @ ds))"

text \<open>\<open>TopicRepository.getTopicHierarchy(rootTopicId)\<close>\<close>

definition getTopicHierarchy :: "nat \<Rightarrow> store \<Rightarrow> string \<Rightarrow> (addr option \<times> store) option" where
  "getTopicHierarchy n s rootTopicId =
     (case findById s rootTopicId of
        None \<Rightarrow> Some (None, s)
      | Some rootTopic \<Rightarrow>
          (case loadChildrenRecursively n s rootTopic of
             None \<Rightarrow> None
           | Some s' \<Rightarrow> Some (Some rootTopic, s')))"

text \<open>\<open>TopicRepository.getAllDescendants(topicId)\<close>\<close>

definition getAllDescendants :: "nat \<Rightarrow> store \<Rightarrow> string \<Rightarrow> (addr list \<times> store) option" where
  "getAllDescendants n s tid =
     (case getTopicHierarchy n s tid of
        None \<Rightarrow> None
      | Some (None, s') \<Rightarrow> Some ([], s')
      | Some (Some topic, s') \<Rightarrow>
          (case getAllDescendants_topic n s' topic of
             None \<Rightarrow> None
           | Some ds \<Rightarrow> Some (ds, s')))"

subsection \<open>Moving\<close>

text \<open>\<open>Object.assign(entity, updates)\<close> for the properties of the model.\<close>

fun assignProperty :: "Topic \<Rightarrow> string \<times> JsValue \<Rightarrow> Topic" where
  "assignProperty t (key, JsString v) =
     (if key = ''name'' then t\<lparr> name := v \<rparr>
      else if key = ''content'' then t\<lparr> content := v \<rparr>
      else if key = ''parentId'' then t\<lparr> parentId := Some v \<rparr>
      else t)"
| "assignProperty t (key, JsNumber v) = (if key = ''version'' then t\<lparr> version := v \<rparr> else t)"
| "assignProperty t (key, JsUndefined) = (if key = ''parentId'' then t\<lparr> parentId := None \<rparr> else t)"
| "assignProperty t (key, v) = t"

definition objectAssign :: "Topic \<Rightarrow> (string \<times> JsValue) list \<Rightarrow> Topic" where
  "objectAssign t updates = foldl assignProperty t updates"

text \<open>\<open>BaseRepository.update(id, updates)\<close>\<close>

definition update_base :: "store \<Rightarrow> string \<Rightarrow> (string \<times> JsValue) list \<Rightarrow> (error + addr option) \<times> store" where
  "update_base s i updates =
     (case map_get (data s) i of
        None \<Rightarrow> (Inr None, s)
      | Some entity \<Rightarrow>
          let s1 = assign s entity (objectAssign (deref s entity) updates);
              s2 = assign s1 entity ((deref s1 entity)\<lparr> updatedAt := clock s1 \<rparr>)
          in if \<not> isValid (deref s2 entity)
             then (Inl (ValidationFailed (validate (deref s2 entity))), s2)
             else (Inr (Some entity), s2\<lparr> data := map_set (data s2) i entity \<rparr>))"

text \<open>The optional string as a property value.\<close>

definition jsOfOption :: "string option \<Rightarrow> JsValue" where
  "jsOfOption p = (case p of None \<Rightarrow> JsUndefined | Some v \<Rightarrow> JsString v)"

text \<open>\<open>TopicRepository.moveToParent(topicId, newParentId)\<close>\<close>

definition moveToParent_repo ::
  "nat \<Rightarrow> store \<Rightarrow> string \<Rightarrow> string option \<Rightarrow> ((error + addr option) \<times> store) option" where
  "moveToParent_repo n s tid newParentId =
     (case findById s tid of
        None \<Rightarrow> Some (Inr None, s)
      | Some topic \<Rightarrow>
          if truthy newParentId \<and> \<not> exists_topic s (the newParentId)
          then Some (Inl (ParentTopicWithIdNotFound (the newParentId)), s)
          else
            (case (if truthy newParentId
                   then (case getAllDescendants n s tid of
                           None \<Rightarrow> None
                         | Some (descendants, s') \<Rightarrow>
                             Some (list_ex (\<lambda>d. topic_id (deref s' d) = the newParentId) descendants, s'))
                   else Some (False, s)) of
               None \<Rightarrow> None
             | Some (True, s') \<Rightarrow> Some (Inl CircularReferenceError, s')
             | Some (False, s') \<Rightarrow>
                 let s1 = assign s' topic ((deref s' topic)\<lparr> parentId := newParentId \<rparr>)
                 in Some (update_base s1 tid [(''parentId'', jsOfOption newParentId)])))"

section \<open>TopicService (services/TopicService.ts)\<close>

text \<open>
  The guard that opens every operation: with a user id, the user must exist and hold the
  permission. Publishing events is outside the model.
\<close>

definition permitted :: "store \<Rightarrow> string option \<Rightarrow> (UserRole \<Rightarrow> bool) \<Rightarrow> bool" where
  "permitted s userId can =
     (if truthy userId
      then (case map_get (users s) (the userId) of None \<Rightarrow> False | Some role \<Rightarrow> can role)
      else True)"

text \<open>The \<open>Partial<Topic>\<close> a caller supplies: each property may be absent.\<close>

record TopicData =
  d_name :: "string option"
  d_content :: "string option"
  d_parentId :: "string option"

text \<open>\<open>TopicService.wouldCreateCircularReference(topicId, newParentId)\<close>\<close>

definition wouldCreateCircularReference ::
  "nat \<Rightarrow> store \<Rightarrow> string \<Rightarrow> string \<Rightarrow> (bool \<times> store) option" where
  "wouldCreateCircularReference n s tid newParentId =
     (case getAllDescendants n s tid of
        None \<Rightarrow> None
      | Some (descendants, s') \<Rightarrow>
          Some (list_ex (\<lambda>d. topic_id (deref s' d) = newParentId) descendants, s'))"

text \<open>\<open>TopicService.create(data)\<close>; \<open>uuid\<close> is the identifier \<open>uuidv4()\<close> draws.\<close>

definition create :: "store \<Rightarrow> TopicData \<Rightarrow> string \<Rightarrow> (error + addr) \<times> store" where
  "create s dat uuid =
     (if \<not> (truthy (d_name dat) \<and> truthy (d_content dat)) then (Inl NameAndContentRequired, s)
      else if truthy (d_parentId dat) \<and> findById s (the (d_parentId dat)) = None
      then (Inl ParentTopicNotFound, s)
      else
        let (topic, s1) = alloc s (new_Topic (the (d_name dat)) (the (d_content dat))
                                     (d_parentId dat) None None uuid (clock s))
        in if \<not> isValid (deref s1 topic)
           then (Inl (ValidationFailed (validate (deref s1 topic))), s1)
           else create_topic s1 topic)"

text \<open>
  \<open>TopicService.update(id, data, userId)\<close>. \<open>updatedTopic\<close> is an object that no map ever
  holds, so it is kept as a value.
\<close>

definition update ::
  "nat \<Rightarrow> store \<Rightarrow> string \<Rightarrow> TopicData \<Rightarrow> string option \<Rightarrow> ((error + addr option) \<times> store) option" where
  "update n s tid dat userId =
     (if \<not> permitted s userId canUpdate then Some (Inl InsufficientPermissions, s)
      else
        (case findById s tid of
           None \<Rightarrow> Some (Inr None, s)
         | Some existingTopic \<Rightarrow>
             let updatedTopic = createNewVersion_topic (deref s existingTopic)
                                  (Some (orElse (d_content dat) (content (deref s existingTopic))))
                                  (Some (orElse (d_name dat) (name (deref s existingTopic))))
                                  (clock s)
             in
             (case (if d_parentId dat \<noteq> None \<and> d_parentId dat \<noteq> parentId (deref s existingTopic)
                    then
                      (if truthy (d_parentId dat)
                       then
                         (if findById s (the (d_parentId dat)) = None
                          then Some (Inl ParentTopicNotFound, s)
                          else
                            (case wouldCreateCircularReference n s tid (the (d_parentId dat)) of
                               None \<Rightarrow> None
                             | Some (True, s') \<Rightarrow> Some (Inl CircularReferenceError, s')
                             | Some (False, s') \<Rightarrow>
                                 Some (Inr (updatedTopic\<lparr> parentId := d_parentId dat \<rparr>), s')))
                       else Some (Inr (updatedTopic\<lparr> parentId := d_parentId dat \<rparr>), s))
                    else Some (Inr updatedTopic, s)) of
                None \<Rightarrow> None
              | Some (Inl e, s') \<Rightarrow> Some (Inl e, s')
              | Some (Inr updatedTopic', s') \<Rightarrow>
                  if \<not> isValid updatedTopic'
                  then Some (Inl (ValidationFailed (validate updatedTopic')), s')
                  else
                    (case createNewVersion s' tid updatedTopic' of
                       (Inl e, s'') \<Rightarrow> Some (Inl e, s'')
                     | (Inr newVersion, s'') \<Rightarrow> Some (Inr (Some newVersion), s'')))))"

text \<open>\<open>TopicService.delete(id, userId)\<close>\<close>

definition delete ::
  "store \<Rightarrow> string \<Rightarrow> string option \<Rightarrow> (error + bool) \<times> store" where
  "delete s tid userId =
     (if \<not> permitted s userId canDelete then (Inl InsufficientPermissions, s)
      else
        (case findById s tid of
           None \<Rightarrow> (Inr False, s)
         | Some topic \<Rightarrow>
             if \<not> canDelete_topic s tid then (Inl HasChildrenError, s)
             else delete_topic s tid))"

text \<open>\<open>TopicService.moveToParent(topicId, newParentId, userId)\<close>\<close>

definition moveToParent ::
  "nat \<Rightarrow> store \<Rightarrow> string \<Rightarrow> string option \<Rightarrow> string option \<Rightarrow> ((error + addr option) \<times> store) option" where
  "moveToParent n s tid newParentId userId =
     (if \<not> permitted s userId canUpdate then Some (Inl InsufficientPermissions, s)
      else
        (case (if truthy newParentId
               then wouldCreateCircularReference n s tid (the newParentId)
               else Some (False, s)) of
           None \<Rightarrow> None
         | Some (True, s') \<Rightarrow> Some (Inl CircularReferenceError, s')
         | Some (False, s') \<Rightarrow> moveToParent_repo n s' tid newParentId))"

section \<open>TopicTreeTraversal (algorithms/TopicTreeTraversal.ts)\<close>

text \<open>
  \<open>dfsRecursive(topicId, result, visited)\<close>; \<open>dfs_children\<close> is its \<open>for\<close> loop over the
  children. \<open>result\<close> and \<open>visited\<close> are the two accumulators the calls share.
\<close>

function dfsRecursive :: "store \<Rightarrow> string \<Rightarrow> addr list \<times> string set \<Rightarrow> addr list \<times> string set"
  and dfs_children :: "store \<Rightarrow> addr list \<Rightarrow> addr list \<times> string set \<Rightarrow> addr list \<times> string set" where
  "dfsRecursive s tid (result, visited) =
     (if tid \<in> visited then (result, visited)
      else (case findById s tid of
              None \<Rightarrow> (result, insert tid visited)
            | Some topic \<Rightarrow>
                dfs_children s (findByParentId s tid) (result @ [topic], insert tid visited)))"
| "dfs_children s [] st = st"
| "dfs_children s (child # rest) st =
     dfs_children s rest (dfsRecursive s (topic_id (deref s child)) st)"
  by pat_completeness auto

text \<open>The recursion ends: every call that goes on marks a live id not marked before.\<close>

lemma dfs_visited_mono:
  "dfsRecursive_dfs_children_dom (Inl (s, tid, st)) \<Longrightarrow> snd st \<subseteq> snd (dfsRecursive s tid st)"
  "dfsRecursive_dfs_children_dom (Inr (s, cs, st)) \<Longrightarrow> snd st \<subseteq> snd (dfs_children s cs st)"
proof (induction s tid st and s cs st rule: dfsRecursive_dfs_children.pinduct)
  case (1 s tid result visited)
  then show ?case
    by (auto simp: dfsRecursive.psimps split: option.splits)
next
  case (2 s st)
  then show ?case by (simp add: dfs_children.psimps)
next
  case (3 s child rest st)
  then show ?case by (auto simp: dfs_children.psimps)
qed

lemma findById_in_keys: "findById s tid = Some a \<Longrightarrow> tid \<in> set (map_keys (data s))"
  by (auto simp: findById_def map_get_def map_keys_def dest: map_of_SomeD intro: rev_image_eqI)

termination dfsRecursive
proof (relation "(\<lambda>x. case x of Inl (s, tid, st) \<Rightarrow> card (set (map_keys (data s)) - snd st)
                              | Inr (s, cs, st) \<Rightarrow> card (set (map_keys (data s)) - snd st))
                 <*mlex*> (\<lambda>x. case x of Inl _ \<Rightarrow> 0 | Inr (s, cs, st) \<Rightarrow> Suc (length cs))
                 <*mlex*> {}",
       goal_cases)
  case 1
  then show ?case by (simp add: wf_mlex)
next
  case (2 s tid result visited topic)
  have "tid \<in> set (map_keys (data s)) - visited"
    using 2 findById_in_keys by auto
  then have "card (set (map_keys (data s)) - insert tid visited)
               < card (set (map_keys (data s)) - visited)"
    by (metis Diff_insert List.finite_set card_Diff1_less finite_Diff)
  then show ?case by (simp add: mlex_prod_def)
next
  case (3 s child rest st)
  then show ?case by (simp add: mlex_prod_def)
next
  case (4 s child rest st)
  have "snd st \<subseteq> snd (dfsRecursive s (topic_id (deref s child)) st)"
    using 4 dfs_visited_mono(1) by blast
  then have "card (set (map_keys (data s)) - snd (dfsRecursive s (topic_id (deref s child)) st))
               \<le> card (set (map_keys (data s)) - snd st)"
    by (intro card_mono) auto
  then show ?case by (auto simp: mlex_prod_def)
qed

definition traverseDepthFirst :: "store \<Rightarrow> string \<Rightarrow> addr list" where
  "traverseDepthFirst s rootTopicId = fst (dfsRecursive s rootTopicId ([], {}))"

text \<open>The \<open>while\<close> loop of \<open>traverseBreadthFirst\<close>; the head of the list is \<open>queue.shift()\<close>.\<close>

function bfs_loop :: "store \<Rightarrow> string list \<Rightarrow> addr list \<Rightarrow> string set \<Rightarrow> addr list" where
  "bfs_loop s [] result visited = result"
| "bfs_loop s (currentTopicId # queue) result visited =
     (if currentTopicId \<in> visited then bfs_loop s queue result visited
      else (case findById s currentTopicId of
              None \<Rightarrow> bfs_loop s queue result (insert currentTopicId visited)
            | Some topic \<Rightarrow>
                bfs_loop s
                  (queue @ map (\<lambda>child. topic_id (deref s child))
                             (filter (\<lambda>child. topic_id (deref s child) \<notin> insert currentTopicId visited)
                                (findByParentId s currentTopicId)))
                  (result @ [topic]) (insert currentTopicId visited)))"
  by pat_completeness auto

termination bfs_loop
proof (relation "(\<lambda>(s, queue, result, visited). card (set (map_keys (data s)) - visited))
                 <*mlex*> (\<lambda>(s, queue, result, visited). length queue) <*mlex*> {}",
       goal_cases)
  case 1
  then show ?case by (simp add: wf_mlex)
next
  case (2 s currentTopicId queue result visited)
  then show ?case by (simp add: mlex_prod_def)
next
  case (3 s currentTopicId queue result visited)
  have "card (set (map_keys (data s)) - insert currentTopicId visited)
          \<le> card (set (map_keys (data s)) - visited)"
    by (intro card_mono) auto
  then show ?case by (auto simp: mlex_prod_def)
next
  case (4 s currentTopicId queue result visited topic)
  have "currentTopicId \<in> set (map_keys (data s)) - visited"
    using 4 findById_in_keys by auto
  then have "card (set (map_keys (data s)) - insert currentTopicId visited)
               < card (set (map_keys (data s)) - visited)"
    by (metis Diff_insert List.finite_set card_Diff1_less finite_Diff)
  then show ?case by (simp add: mlex_prod_def)
qed

definition traverseBreadthFirst :: "store \<Rightarrow> string \<Rightarrow> addr list" where
  "traverseBreadthFirst s rootTopicId = bfs_loop s [rootTopicId] [] {}"

section \<open>TopicPathFinder (algorithms/TopicPathFinder.ts)\<close>

text \<open>The adjacency graph: a \<open>Map\<close> from an id to the array of its neighbours' ids.\<close>

type_synonym graph = "(string \<times> string list) list"

text \<open>\<open>graph.get(k) || []\<close>\<close>

definition neighborsOf :: "graph \<Rightarrow> string \<Rightarrow> string list" where
  "neighborsOf g k = (case map_get g k of None \<Rightarrow> [] | Some ns \<Rightarrow> ns)"

text \<open>
  The body of the second loop of \<open>buildTopicGraph\<close> for one topic. \<open>neighbors\<close> is the
  array the graph holds for the topic (the first loop has put one there for every topic),
  so a push to it is a change of the graph.
\<close>

definition addEdges :: "store \<Rightarrow> graph \<Rightarrow> addr \<Rightarrow> graph" where
  "addEdges s g topic =
     (let tid = topic_id (deref s topic);
          g1 = (if truthy (parentId (deref s topic))
                then
                  (let par = the (parentId (deref s topic));
                       gA = map_set g tid (neighborsOf g tid @ [par]);
                       parentNeighbors = neighborsOf gA par
                   in if tid \<in> set parentNeighbors then gA
                      else map_set gA par (parentNeighbors @ [tid]))
                else g);
          neighbors = foldl (\<lambda>ns child. if topic_id (deref s child) \<in> set ns then ns
                                         else ns @ [topic_id (deref s child)])
                        (neighborsOf g1 tid) (findByParentId s tid)
      in map_set g1 tid neighbors)"

definition buildTopicGraph :: "store \<Rightarrow> graph" where
  "buildTopicGraph s =
     foldl (addEdges s)
       (foldl (\<lambda>g topic. map_set g (topic_id (deref s topic)) []) [] (findAll s))
       (findAll s)"

text \<open>
  A distance is a number or \<open>Infinity\<close>. \<open>distances.get(k) || Infinity\<close> reads a missing
  entry and the number 0 alike as \<open>Infinity\<close>, since 0 is falsy.
\<close>

definition orInfinity :: "enat option \<Rightarrow> enat" where
  "orInfinity d = (case d of None \<Rightarrow> \<infinity> | Some v \<Rightarrow> (if v = 0 then \<infinity> else v))"

text \<open>\<open>distances.get(k) || 0\<close>\<close>

definition orZero :: "enat option \<Rightarrow> enat" where
  "orZero d = (case d of None \<Rightarrow> 0 | Some v \<Rightarrow> (if v = 0 then 0 else v))"

text \<open>\<open>previous.get(k) || null\<close>\<close>

definition orNull :: "string option option \<Rightarrow> string option" where
  "orNull p = (case p of Some (Some v) \<Rightarrow> (if v = [] then None else Some v) | _ \<Rightarrow> None)"

text \<open>The scan for the unvisited node with the least distance: \<open>(currentNode, minDistance)\<close>.\<close>

fun selectMin :: "(string \<times> enat) list \<Rightarrow> string list \<Rightarrow> string option \<times> enat \<Rightarrow> string option \<times> enat" where
  "selectMin distances [] acc = acc"
| "selectMin distances (nodeId # rest) (currentNode, minDistance) =
     (let distance = orInfinity (map_get distances nodeId)
      in if distance < minDistance then selectMin distances rest (Some nodeId, distance)
         else selectMin distances rest (currentNode, minDistance))"

text \<open>The update of the distances to the neighbours of \<open>currentNode\<close>.\<close>

fun relax ::
  "string \<Rightarrow> enat \<Rightarrow> string list \<Rightarrow> string list
   \<Rightarrow> (string \<times> enat) list \<times> (string \<times> string option) list
   \<Rightarrow> (string \<times> enat) list \<times> (string \<times> string option) list" where
  "relax currentNode currentDistance unvisited [] dp = dp"
| "relax currentNode currentDistance unvisited (neighborId # rest) (distances, previous) =
     (if neighborId \<notin> set unvisited
      then relax currentNode currentDistance unvisited rest (distances, previous)
      else
        let newDistance = currentDistance + 1;
            existingDistance = orInfinity (map_get distances neighborId)
        in if newDistance < existingDistance
           then relax currentNode currentDistance unvisited rest
                  (map_set distances neighborId newDistance,
                   map_set previous neighborId (Some currentNode))
           else relax currentNode currentDistance unvisited rest (distances, previous))"

lemma selectMin_member:
  "selectMin distances unvisited (c0, m0) = (Some c, m) \<Longrightarrow> c \<in> set unvisited \<or> c0 = Some c"
  by (induction unvisited arbitrary: c0 m0) (auto simp: Let_def split: if_splits)

text \<open>The main \<open>while\<close> loop; \<open>unvisited\<close> is a \<open>Set\<close>, iterated in insertion order.\<close>

function dijkstra ::
  "graph \<Rightarrow> string
   \<Rightarrow> (string \<times> enat) list \<times> (string \<times> string option) list \<times> string list
   \<Rightarrow> (string \<times> enat) list \<times> (string \<times> string option) list \<times> string list" where
  "dijkstra g endTopicId (distances, previous, unvisited) =
     (if length unvisited > 0
      then
        (case selectMin distances unvisited (None, \<infinity>) of
           (None, minDistance) \<Rightarrow> (distances, previous, unvisited)
         | (Some currentNode, minDistance) \<Rightarrow>
             if minDistance = \<infinity> then (distances, previous, unvisited)
             else if currentNode = endTopicId
             then (distances, previous, removeAll currentNode unvisited)
             else
               (let unvisited' = removeAll currentNode unvisited;
                    (distances', previous') =
                       relax currentNode (orZero (map_get distances currentNode)) unvisited'
                         (neighborsOf g currentNode) (distances, previous)
                in dijkstra g endTopicId (distances', previous', unvisited')))
      else (distances, previous, unvisited))"
  by pat_completeness auto

lemma selectMin_removeAll:
  "(Some c, m) = selectMin distances unvisited (None, \<infinity>)
   \<Longrightarrow> length (removeAll c unvisited) < length unvisited"
  using selectMin_member [of distances unvisited None \<infinity> c m]
  by (simp add: length_removeAll_less)

termination dijkstra
  by (relation "measure (\<lambda>(g, endTopicId, distances, previous, unvisited). length unvisited)")
     (auto simp: selectMin_removeAll)

text \<open>
  The loop that rebuilds the path from \<open>previous\<close>. Nothing in it bounds the walk, so it is
  a partial function: \<open>None\<close> is a loop that does not end.
\<close>

partial_function (option) reconstruct ::
  "(string \<times> string option) list \<Rightarrow> string option \<Rightarrow> string list \<Rightarrow> string list option" where
  "reconstruct previous currentNode path =
     (case currentNode of
        None \<Rightarrow> Some path
      | Some c \<Rightarrow> reconstruct previous (orNull (map_get previous c)) (c # path))"

declare reconstruct.simps [code]

text \<open>
  \<open>findShortestPath(startTopicId, endTopicId)\<close>: \<open>Some None\<close> is the result \<open>null\<close>,
  \<open>Some (Some path)\<close> a path.
\<close>

definition findShortestPath :: "store \<Rightarrow> string \<Rightarrow> string \<Rightarrow> addr list option option" where
  "findShortestPath s startTopicId endTopicId =
     (if startTopicId = endTopicId
      then Some (case findById s startTopicId of None \<Rightarrow> None | Some topic \<Rightarrow> Some [topic])
      else
        let g = buildTopicGraph s in
        if \<not> (map_has g startTopicId \<and> map_has g endTopicId) then Some None
        else
          let distances = map (\<lambda>k. (k, if k = startTopicId then 0 else \<infinity>)) (map_keys g);
              previous = map (\<lambda>k. (k, None)) (map_keys g);
              unvisited = map_keys g;
              (distances', previous', unvisited') =
                 dijkstra g endTopicId (distances, previous, unvisited)
          in (case reconstruct previous' (Some endTopicId) [] of
                None \<Rightarrow> None
              | Some path \<Rightarrow>
                  if length path = 0 \<or> hd path \<noteq> startTopicId then Some None
                  else
                    let topicPath = List.map_filter (findById s) path
                    in if length topicPath = length path then Some (Some topicPath)
                       else Some None))"

text \<open>\<open>getPathDistance\<close>: the number of edges, or \<open>-1\<close>.\<close>

definition getPathDistance :: "store \<Rightarrow> string \<Rightarrow> string \<Rightarrow> int option" where
  "getPathDistance s startTopicId endTopicId =
     (case findShortestPath s startTopicId endTopicId of
        None \<Rightarrow> None
      | Some None \<Rightarrow> Some (- 1)
      | Some (Some path) \<Rightarrow> Some (int (length path) - 1))"

section \<open>TopicHierarchyAlgorithm (algorithms/TopicHierarchyAlgorithm.ts)\<close>

text \<open>
  The \<open>while\<close> loop of \<open>getAllAncestors\<close>. It follows the parent links and does not end on
  a cycle of them: \<open>None\<close> is a loop that does not end.
\<close>

partial_function (option) getAllAncestors_loop ::
  "store \<Rightarrow> string option \<Rightarrow> addr list \<Rightarrow> addr list option" where
  "getAllAncestors_loop s currentTopicId ancestors =
     (if truthy currentTopicId
      then
        (case findById s (the currentTopicId) of
           None \<Rightarrow> Some ancestors
         | Some topic \<Rightarrow>
             if truthy (parentId (deref s topic))
             then
               (case findById s (the (parentId (deref s topic))) of
                  Some parent \<Rightarrow>
                    getAllAncestors_loop s (Some (topic_id (deref s parent))) (ancestors @ [parent])
                | None \<Rightarrow> Some ancestors)
             else Some ancestors)
      else Some ancestors)"

declare getAllAncestors_loop.simps [code]

definition getAllAncestors :: "store \<Rightarrow> string \<Rightarrow> addr list option" where
  "getAllAncestors s tid = getAllAncestors_loop s (Some tid) []"

text \<open>The \<open>while\<close> loop of \<open>calculateDepth\<close>.\<close>

partial_function (option) calculateDepth_loop ::
  "store \<Rightarrow> string option \<Rightarrow> int \<Rightarrow> int option" where
  "calculateDepth_loop s currentTopicId depth =
     (if truthy currentTopicId
      then
        (case findById s (the currentTopicId) of
           None \<Rightarrow> Some depth
         | Some topic \<Rightarrow>
             if \<not> truthy (parentId (deref s topic)) then Some depth
             else calculateDepth_loop s (parentId (deref s topic)) (depth + 1))
      else Some depth)"

declare calculateDepth_loop.simps [code]

definition calculateDepth :: "store \<Rightarrow> string \<Rightarrow> int option" where
  "calculateDepth s tid = calculateDepth_loop s (Some tid) 0"

definition isAncestor :: "store \<Rightarrow> string \<Rightarrow> string \<Rightarrow> bool option" where
  "isAncestor s ancestorId descendantId =
     (if ancestorId = descendantId then Some False
      else
        (case getAllAncestors s descendantId of
           None \<Rightarrow> None
         | Some ancestors \<Rightarrow> Some (list_ex (\<lambda>a. topic_id (deref s a) = ancestorId) ancestors)))"

definition getAncestorPath :: "store \<Rightarrow> string \<Rightarrow> addr list option" where
  "getAncestorPath s tid =
     (case getAllAncestors s tid of
        None \<Rightarrow> None
      | Some ancestors \<Rightarrow>
          Some ((case findById s tid of None \<Rightarrow> [] | Some startTopic \<Rightarrow> [startTopic]) @ ancestors))"

text \<open>
  \<open>getCommonAncestor\<close>: the first topic of the first path whose id is the id of some topic
  of the second. \<open>Some None\<close> is \<open>null\<close>.
\<close>

definition getCommonAncestor :: "store \<Rightarrow> string \<Rightarrow> string \<Rightarrow> addr option option" where
  "getCommonAncestor s topicId1 topicId2 =
     (if topicId1 = topicId2 then Some (findById s topicId1)
      else
        (case getAncestorPath s topicId1 of
           None \<Rightarrow> None
         | Some ancestors1 \<Rightarrow>
             (case getAncestorPath s topicId2 of
                None \<Rightarrow> None
              | Some ancestors2 \<Rightarrow>
                  Some (find (\<lambda>ancestor1.
                                list_ex (\<lambda>ancestor2. topic_id (deref s ancestor1) = topic_id (deref s ancestor2))
                                  ancestors2)
                          ancestors1))))"

datatype RelationshipType =
    Same | ParentChild | ChildParent | Siblings | Cousins
  | AncestorDescendant | DescendantAncestor | Unrelated

record Relationship =
  rel_type :: RelationshipType
  description :: string
  commonAncestor :: "addr option"
  distance :: int

text \<open>The part of \<open>getRelationship\<close> after the checks of the direct links and of siblings.\<close>

definition getRelationship_distant :: "store \<Rightarrow> string \<Rightarrow> string \<Rightarrow> addr \<Rightarrow> addr \<Rightarrow> Relationship option" where
  "getRelationship_distant s topicId1 topicId2 topic1 topic2 =
     (case isAncestor s topicId1 topicId2 of
        None \<Rightarrow> None
      | Some True \<Rightarrow>
          (case (calculateDepth s topicId2, calculateDepth s topicId1) of
             (Some d2, Some d1) \<Rightarrow>
               Some \<lparr> rel_type = AncestorDescendant,
                      description = name (deref s topic1) @ '' is an ancestor of '' @ name (deref s topic2),
                      commonAncestor = None, distance = d2 - d1 \<rparr>
           | _ \<Rightarrow> None)
      | Some False \<Rightarrow>
          (case isAncestor s topicId2 topicId1 of
             None \<Rightarrow> None
           | Some True \<Rightarrow>
               (case (calculateDepth s topicId1, calculateDepth s topicId2) of
                  (Some d1, Some d2) \<Rightarrow>
                    Some \<lparr> rel_type = DescendantAncestor,
                           description = name (deref s topic1) @ '' is a descendant of '' @ name (deref s topic2),
                           commonAncestor = None, distance = d1 - d2 \<rparr>
                | _ \<Rightarrow> None)
           | Some False \<Rightarrow>
               (case getCommonAncestor s topicId1 topicId2 of
                  None \<Rightarrow> None
                | Some (Some ca) \<Rightarrow>
                    (case (calculateDepth s topicId1, calculateDepth s topicId2,
                           calculateDepth s (topic_id (deref s ca))) of
                       (Some d1, Some d2, Some dc) \<Rightarrow>
                         Some \<lparr> rel_type = Cousins,
                                description = name (deref s topic1) @ '' and '' @ name (deref s topic2)
                                  @ '' are cousins (common ancestor: '' @ name (deref s ca) @ '')'',
                                commonAncestor = Some ca, distance = (d1 - dc) + (d2 - dc) \<rparr>
                     | _ \<Rightarrow> None)
                | Some None \<Rightarrow>
                    Some \<lparr> rel_type = Unrelated,
                           description = name (deref s topic1) @ '' and '' @ name (deref s topic2)
                             @ '' are not related in the hierarchy'',
                           commonAncestor = None, distance = - 1 \<rparr>)))"

text \<open>\<open>getRelationship(topicId1, topicId2)\<close>; \<open>None\<close> when one of its loops does not end.\<close>

definition getRelationship :: "store \<Rightarrow> string \<Rightarrow> string \<Rightarrow> Relationship option" where
  "getRelationship s topicId1 topicId2 =
     (if topicId1 = topicId2
      then Some \<lparr> rel_type = Same, description = ''Same topic'', commonAncestor = None, distance = 0 \<rparr>
      else
        (case (findById s topicId1, findById s topicId2) of
           (Some topic1, Some topic2) \<Rightarrow>
             if parentId (deref s topic1) = Some topicId2
             then Some \<lparr> rel_type = ChildParent,
                         description = name (deref s topic1) @ '' is a child of '' @ name (deref s topic2),
                         commonAncestor = None, distance = 1 \<rparr>
             else if parentId (deref s topic2) = Some topicId1
             then Some \<lparr> rel_type = ParentChild,
                         description = name (deref s topic1) @ '' is a parent of '' @ name (deref s topic2),
                         commonAncestor = None, distance = 1 \<rparr>
             else if truthy (parentId (deref s topic1))
                     \<and> parentId (deref s topic1) = parentId (deref s topic2)
             then Some \<lparr> rel_type = Siblings,
                         description = name (deref s topic1) @ '' and '' @ name (deref s topic2)
                           @ '' are siblings'',
                         commonAncestor = None, distance = 2 \<rparr>
             else getRelationship_distant s topicId1 topicId2 topic1 topic2
         | _ \<Rightarrow>
             Some \<lparr> rel_type = Unrelated, description = ''One or both topics not found'',
                    commonAncestor = None, distance = - 1 \<rparr>))"

section \<open>TopicSearchAlgorithm (algorithms/TopicSearchAlgorithm.ts)\<close>

text \<open>\<open>text.replace(/[^\w\s]/g, ' ')\<close>\<close>

definition replacePunctuation :: "string \<Rightarrow> string" where
  "replacePunctuation text = map (\<lambda>c. if isWordChar c \<or> isSpace c then c else CHR '' '') text"

text \<open>
  \<open>text.split(/\s+/)\<close>, with the empty strings it yields at a leading or trailing run of
  white space; the second argument is the piece being read.
\<close>

function splitWhitespace :: "string \<Rightarrow> string \<Rightarrow> string list" where
  "splitWhitespace [] piece = [piece]"
| "splitWhitespace (c # cs) piece =
     (if isSpace c then piece # splitWhitespace (dropWhile isSpace cs) []
      else splitWhitespace cs (piece @ [c]))"
  by pat_completeness auto

termination splitWhitespace
  by (relation "measure (\<lambda>(text, piece). length text)")
     (auto simp: less_Suc_eq_le length_dropWhile_le)

definition isStopWord :: "string \<Rightarrow> bool" where
  "isStopWord word =
     (toLowerCase word \<in> set
       [''a'', ''an'', ''and'', ''are'', ''as'', ''at'', ''be'', ''by'', ''for'', ''from'',
        ''has'', ''he'', ''in'', ''is'', ''it'', ''its'', ''of'', ''on'', ''that'', ''the'',
        ''to'', ''was'', ''will'', ''with'', ''the'', ''this'', ''but'', ''they'', ''have'',
        ''had'', ''what'', ''said'', ''each'', ''which'', ''their'', ''time'', ''if''])"

definition preprocessQuery :: "string \<Rightarrow> string list" where
  "preprocessQuery query =
     filter (\<lambda>term. \<not> isStopWord term)
       (filter (\<lambda>term. length term > 0)
          (splitWhitespace (replacePunctuation (toLowerCase query)) []))"

definition extractWords :: "string \<Rightarrow> string list" where
  "extractWords text =
     filter (\<lambda>word. length word > 0) (splitWhitespace (replacePunctuation text) [])"

text \<open>\<open>if (!matchedFields.includes(f)) matchedFields.push(f)\<close>\<close>

definition pushField :: "string \<Rightarrow> string list \<Rightarrow> string list" where
  "pushField f matchedFields = (if f \<in> set matchedFields then matchedFields else matchedFields @ [f])"

text \<open>The body of the loop of \<open>calculateRelevance\<close> for one term, on \<open>(score, matchedFields)\<close>.\<close>

definition scoreTerm :: "Topic \<Rightarrow> nat \<times> string list \<Rightarrow> string \<Rightarrow> nat \<times> string list" where
  "scoreTerm topic acc term =
     (let nameWords = extractWords (name topic);
          contentWords = extractWords (content topic);
          acc1 = (if includes_str (toLowerCase (name topic)) term
                  then (fst acc + 10, pushField ''name'' (snd acc)) else acc);
          acc2 = (if list_ex (\<lambda>word. toLowerCase word = term) nameWords
                  then (fst acc1 + 8, pushField ''name'' (snd acc1)) else acc1);
          acc3 = (if list_ex (\<lambda>word. includes_str (toLowerCase word) term) nameWords
                  then (fst acc2 + 5, pushField ''name'' (snd acc2)) else acc2);
          acc4 = (if includes_str (toLowerCase (content topic)) term
                  then (fst acc3 + 3, pushField ''content'' (snd acc3)) else acc3);
          acc5 = (if list_ex (\<lambda>word. toLowerCase word = term) contentWords
                  then (fst acc4 + 2, pushField ''content'' (snd acc4)) else acc4);
          acc6 = (if list_ex (\<lambda>word. includes_str (toLowerCase word) term) contentWords
                  then (fst acc5 + 1, pushField ''content'' (snd acc5)) else acc5)
      in acc6)"

text \<open>
  A relevance is a JavaScript number. The quotient of a score by a divisor, neither
  negative, is \<open>NaN\<close> for \<open>0 / 0\<close> and \<open>Infinity\<close> for a positive score over 0; otherwise
  it is a number, taken here as the real quotient (the rounding of the floating-point
  division and logarithm is outside the model; it does not change the sign).
\<close>

datatype relevance = Num real | PosInfinity | NaN

definition divide_js :: "real \<Rightarrow> real \<Rightarrow> relevance" where
  "divide_js x y = (if y = 0 then (if x = 0 then NaN else PosInfinity) else Num (x / y))"

text \<open>\<open>r > 0\<close>\<close>

fun positive :: "relevance \<Rightarrow> bool" where
  "positive (Num r) = (r > 0)"
| "positive PosInfinity = True"
| "positive NaN = False"

text \<open>\<open>calculateRelevance(searchTerms, topic)\<close>: the normalised score and the matched fields.\<close>

definition calculateRelevance :: "string list \<Rightarrow> Topic \<Rightarrow> relevance \<times> string list" where
  "calculateRelevance searchTerms topic =
     (let (score, matchedFields) = foldl (scoreTerm topic) (0, []) searchTerms;
          normalizedScore =
            divide_js (real score)
              (real (length searchTerms) * ln (real (length (content topic) + 1)))
      in (normalizedScore, matchedFields))"

text \<open>\<open>content.substring(i, j)\<close> for \<open>i \<le> j\<close>\<close>

definition substring :: "string \<Rightarrow> nat \<Rightarrow> nat \<Rightarrow> string" where
  "substring text i j = take (j - i) (drop i text)"

text \<open>
  The number of matches of \<open>new RegExp(term, 'g')\<close> in a text, for a term of word
  characters (which a pattern reads literally): the occurrences, left to right, none
  overlapping another.
\<close>

function countMatches :: "string \<Rightarrow> string \<Rightarrow> nat" where
  "countMatches text term =
     (if term = [] then length text + 1
      else if text = [] then 0
      else if startsWith text term then 1 + countMatches (drop (length term) text) term
      else countMatches (tl text) term)"
  by pat_completeness auto

termination countMatches
  by (relation "measure (\<lambda>(text, term). length text)") auto

text \<open>\<open>text.indexOf(' ')\<close> and \<open>text.lastIndexOf(' ')\<close>; \<open>None\<close> is \<open>-1\<close>.\<close>

definition indexOfSpace :: "string \<Rightarrow> nat option" where
  "indexOfSpace text =
     (if CHR '' '' \<in> set text then Some (length (takeWhile (\<lambda>c. c \<noteq> CHR '' '') text)) else None)"

definition lastIndexOfSpace :: "string \<Rightarrow> nat option" where
  "lastIndexOfSpace text =
     (if CHR '' '' \<in> set text
      then Some (length text - 1 - length (takeWhile (\<lambda>c. c \<noteq> CHR '' '') (rev text)))
      else None)"

text \<open>\<open>generateSnippet(topic, searchTerms)\<close>\<close>

definition generateSnippet :: "Topic \<Rightarrow> string list \<Rightarrow> string" where
  "generateSnippet topic searchTerms =
     (let text = content topic;
          maxSnippetLength = 200;
          (bestPosition, bestScore) =
             foldl (\<lambda>(bestPosition, bestScore) i.
                      let snippet = substring text i (i + maxSnippetLength);
                          score = foldl (\<lambda>score term. score + countMatches (toLowerCase snippet) term)
                                    0 searchTerms
                      in if score > bestScore then (i, score) else (bestPosition, bestScore))
               (0, 0) [0 ..< length text - maxSnippetLength];
          snippet0 = substring text bestPosition (bestPosition + maxSnippetLength);
          snippet1 = (if bestPosition > 0
                      then (case indexOfSpace snippet0 of
                              Some spaceIndex \<Rightarrow>
                                if spaceIndex > 0 \<and> spaceIndex < 50
                                then drop (spaceIndex + 1) snippet0 else snippet0
                            | None \<Rightarrow> snippet0)
                      else snippet0);
          snippet2 = (case lastIndexOfSpace snippet1 of
                        Some lastSpaceIndex \<Rightarrow>
                          if lastSpaceIndex > maxSnippetLength - 50
                          then take lastSpaceIndex snippet1 else snippet1
                      | None \<Rightarrow> snippet1)
      in trim snippet2 @ (if bestPosition + length snippet2 < length text then ''...'' else []))"

record SearchResult =
  topic :: Topic
  relevance :: relevance
  matchedFields :: "string list"
  snippet :: string

text \<open>
  \<open>results.sort((a, b) => b.relevance - a.relevance)\<close>: a stable sort, the greater
  relevance first. \<open>before a b\<close> says that the comparison puts \<open>a\<close> strictly before \<open>b\<close>.
\<close>

fun before :: "relevance \<Rightarrow> relevance \<Rightarrow> bool" where
  "before (Num x) (Num y) = (x > y)"
| "before PosInfinity (Num y) = True"
| "before a b = False"

fun insertResult :: "SearchResult \<Rightarrow> SearchResult list \<Rightarrow> SearchResult list" where
  "insertResult r [] = [r]"
| "insertResult r (x # xs) =
     (if before (relevance r) (relevance x) then r # x # xs else x # insertResult r xs)"

definition sortByRelevance :: "SearchResult list \<Rightarrow> SearchResult list" where
  "sortByRelevance results = foldl (\<lambda>sorted r. insertResult r sorted) [] results"

text \<open>\<open>searchWithRelevance(query, topics)\<close>, on the topics as values.\<close>

definition searchWithRelevance :: "string \<Rightarrow> Topic list \<Rightarrow> SearchResult list" where
  "searchWithRelevance query topics =
     (if trim query = [] then []
      else
        let searchTerms = preprocessQuery query;
            results =
              concat (map (\<lambda>t. let (score, fields) = calculateRelevance searchTerms t
                                in if positive score
                                   then [\<lparr> topic = t, relevance = score, matchedFields = fields,
                                           snippet = generateSnippet t searchTerms \<rparr>]
                                   else [])
                        topics)
        in sortByRelevance results)"

section \<open>Containing a string without regard to case\<close>

text \<open>
  What it means that a string contains another as a case-insensitive substring, said
  without the case conversion of the lookup. Two characters are equal up to case when they
  are the same, or one is a capital letter and the other the small letter 32 code points
  above it; the capital letters are given by their code points. \<open>q\<close> contains \<open>p\<close> when
  a contiguous part of \<open>q\<close> has the length of \<open>p\<close> and equals it up to case, character
  by character.
\<close>

definition capitalCode :: "nat \<Rightarrow> bool" where
  "capitalCode n = (65 \<le> n \<and> n \<le> 90 \<or> 192 \<le> n \<and> n \<le> 222 \<and> n \<noteq> 215)"

definition equalIgnoringCase :: "char \<Rightarrow> char \<Rightarrow> bool" where
  "equalIgnoringCase c d =
     (c = d \<or> (capitalCode (of_char c) \<and> of_char d = of_char c + (32::nat))
            \<or> (capitalCode (of_char d) \<and> of_char c = of_char d + (32::nat)))"

definition containsIgnoringCase :: "string \<Rightarrow> string \<Rightarrow> bool" where
  "containsIgnoringCase q p = (\<exists>xs ys zs. q = xs @ ys @ zs \<and> list_all2 equalIgnoringCase ys p)"

section \<open>Example stores\<close>

text \<open>
  \<open>repository.create(new Topic(name, content, parentId, id))\<close>, the way the tests fill
  a repository; the example stores below are built with it from the empty store.
\<close>

definition emptyStore :: store where
  "emptyStore = \<lparr> heap = [], data = [], versionData = [], users = [], clock = 0 \<rparr>"

definition createWithId :: "store \<Rightarrow> string \<Rightarrow> string \<Rightarrow> string \<Rightarrow> string option \<Rightarrow> store" where
  "createWithId s i nm ct par =
     (let (a, s1) = alloc s (new_Topic nm ct par (Some i) None i (clock s))
      in snd (create_topic s1 a))"

text \<open>Topics \<open>a\<close> and \<open>ab\<close> without parent, and \<open>c\<close> under \<open>ab\<close>.\<close>

definition store_a_ab_c :: store where
  "store_a_ab_c =
     createWithId (createWithId (createWithId emptyStore
       ''a'' ''Topic A'' ''text of a'' None)
       ''ab'' ''Topic AB'' ''text of ab'' None)
       ''c'' ''Topic C'' ''text of c'' (Some ''ab'')"

lemma store_a_ab_c_eq:
  "store_a_ab_c =
     \<lparr> heap =
         [\<lparr> topic_id = ''a'', createdAt = 0, updatedAt = 0, name = ''Topic A'',
             content = ''text of a'', version = 1, parentId = None, children = [],
             childTopics = [] \<rparr>,
          \<lparr> topic_id = ''ab'', createdAt = 0, updatedAt = 0, name = ''Topic AB'',
             content = ''text of ab'', version = 1, parentId = None, children = [],
             childTopics = [] \<rparr>,
          \<lparr> topic_id = ''c'', createdAt = 0, updatedAt = 0, name = ''Topic C'',
             content = ''text of c'', version = 1, parentId = Some ''ab'', children = [],
             childTopics = [] \<rparr>],
       data = [(''a'', 0), (''ab'', 1), (''c'', 2)],
       versionData = [(''a'', [(1, 0)]), (''ab'', [(1, 1)]), (''c'', [(1, 2)])],
       users = [], clock = 0 \<rparr>"
  by code_simp

text \<open>
  Ids and parent ids that differ in case: topics \<open>k\<close> and \<open>Kb\<close> without parent, \<open>c\<close>
  under \<open>Kb\<close> and \<open>d\<close> under \<open>k\<close>.
\<close>

definition store_mixed_case :: store where
  "store_mixed_case =
     createWithId (createWithId (createWithId (createWithId emptyStore
       ''k'' ''Topic K'' ''text of k'' None)
       ''Kb'' ''Topic KB'' ''text of kb'' None)
       ''c'' ''Topic C'' ''text of c'' (Some ''Kb''))
       ''d'' ''Topic D'' ''text of d'' (Some ''k'')"

text \<open>A root \<open>p\<close> with children \<open>c1\<close> and \<open>c2\<close>, and \<open>g\<close> under \<open>c1\<close>.\<close>

definition store_tree :: store where
  "store_tree =
     createWithId (createWithId (createWithId (createWithId emptyStore
       ''p'' ''Root'' ''r-content'' None)
       ''c1'' ''First'' ''first child'' (Some ''p''))
       ''c2'' ''Second'' ''second child'' (Some ''p''))
       ''g'' ''Grandchild'' ''under the first'' (Some ''c1'')"

text \<open>A single topic \<open>a\<close>.\<close>

definition store_single :: store where
  "store_single = createWithId emptyStore ''a'' ''Topic A'' ''text of a'' None"

text \<open>A parent \<open>p\<close> and its child \<open>c\<close>, as the integration test of the shortest path builds them.\<close>

definition store_parent_child :: store where
  "store_parent_child =
     createWithId (createWithId emptyStore
       ''p'' ''Parent Topic'' ''Parent content'' None)
       ''c'' ''Child Topic'' ''Child content'' (Some ''p'')"


text \<open>
  Two topics that name each other as parent. \<open>TopicRepository.create\<close> does not look at
  the parent, so the repository accepts them.
\<close>

definition store_cycle :: store where
  "store_cycle =
     createWithId (createWithId emptyStore
       ''a'' ''Topic A'' ''text of a'' (Some ''b''))
       ''b'' ''Topic B'' ''text of b'' (Some ''a'')"

text \<open>The two topics of the search scenario.\<close>

definition jsGuide :: Topic where
  "jsGuide = new_Topic ''JS Guide'' ''learn javascript'' None (Some ''t1'') None ''t1'' 0"

definition pyGuide :: Topic where
  "pyGuide = new_Topic ''Py Guide'' ''learn python'' None (Some ''t2'') None ''t2'' 0"

text \<open>The update scenario: a topic created through the service, and the update of its content.\<close>

definition dataT :: TopicData where
  "dataT = \<lparr> d_name = Some ''Name'', d_content = Some ''v1 content'', d_parentId = None \<rparr>"

definition store_T :: store where
  "store_T = snd (create emptyStore dataT ''t'')"

definition updateT :: Topic where
  "updateT = new_Topic ''Name'' ''v2 content'' None (Some ''t'') None ''t'' 0"

text \<open>
  A topic \<open>t\<close> whose version is \<open>2^53\<close>, made by
  \<open>repository.create(new Topic(name, content, undefined, id, 2 ** 53))\<close>.
\<close>

definition store_limit :: store where
  "store_limit =
     (let (a, s1) = alloc emptyStore
                      (new_Topic ''Name'' ''v1 content'' None (Some ''t'') (Some 9007199254740992) ''t'' 0)
      in snd (create_topic s1 a))"

text \<open>Successive calls of \<open>createNewVersion\<close> on one id, and the versions they produce.\<close>

fun createNewVersions :: "store \<Rightarrow> string \<Rightarrow> Topic list \<Rightarrow> int list \<times> store" where
  "createNewVersions s tid [] = ([], s)"
| "createNewVersions s tid (u # us) =
     (case createNewVersion s tid u of
        (Inl e, s') \<Rightarrow> ([], s')
      | (Inr a, s') \<Rightarrow>
          (let (vs, s'') = createNewVersions s' tid us in (version (deref s' a) # vs, s'')))"

section \<open>The child lookup\<close>

lemma startsWith_prefix: "startsWith s t \<longleftrightarrow> prefix t s"
  by (induction s t rule: startsWith.induct) auto

lemma includes_str_sublist: "includes_str s t \<longleftrightarrow> sublist t s"
  by (induction s) (auto simp: startsWith_prefix sublist_Cons_right)

lemma sublist_toLowerCase: "sublist t s \<Longrightarrow> sublist (toLowerCase t) (toLowerCase s)"
  unfolding toLowerCase_def sublist_def by (metis map_append)

lemma criterionHolds_parentId:
  "criterionHolds t (''parentId'', JsString p) \<longleftrightarrow>
     (\<exists>q. parentId t = Some q \<and> sublist (toLowerCase p) (toLowerCase q))"
  by (auto simp: criterionHolds_def property_def includes_str_sublist split: option.splits)

lemma findByParentId_filter:
  "findByParentId s p =
     filter (\<lambda>a. \<exists>q. parentId (deref s a) = Some q \<and> sublist (toLowerCase p) (toLowerCase q))
       (findAll s)"
  by (simp add: findByParentId_def findBy_def findAll_def criterionHolds_parentId)

text \<open>
  The case conversion of the lookup against containment without regard to case: the table
  of letters holds the capital letters by code point, each with the letter 32 above it.
\<close>

lemma letters_by_code:
  "map (\<lambda>(u, l). (of_char u :: nat, of_char l :: nat)) (zip capitalLetters smallLetters) =
     map (\<lambda>n. (n, n + 32)) ([65 ..< 91] @ [192 ..< 215] @ [216 ..< 223])"
  by (simp add: capitalLetters_def smallLetters_def)

lemma map_of_by_code:
  "map (\<lambda>(u, l). (of_char u :: nat, of_char l :: nat)) table = map (\<lambda>n. (n, n + 32)) ns \<Longrightarrow>
   of_char (case map_of table c of Some l \<Rightarrow> l | None \<Rightarrow> c) =
     (if of_char c \<in> set ns then of_char c + 32 else (of_char c :: nat))"
proof (induction table arbitrary: ns)
  case Nil
  then show ?case by simp
next
  case (Cons p table)
  obtain u l where p: "p = (u, l)" by (cases p)
  from Cons.prems obtain n ns' where ns: "ns = n # ns'" by (cases ns) auto
  from Cons.prems have h: "of_char u = n" "of_char l = n + 32"
    and t: "map (\<lambda>(u, l). (of_char u :: nat, of_char l :: nat)) table = map (\<lambda>n. (n, n + 32)) ns'"
    by (simp_all add: p ns)
  show ?case
  proof (cases "u = c")
    case True
    then show ?thesis using h by (simp add: p ns)
  next
    case False
    then have "of_char c \<noteq> n"
      using h(1) by (metis of_char_eq_iff)
    with False show ?thesis
      using Cons.IH[OF t] by (simp add: p ns)
  qed
qed

lemma toLowerCaseChar_code:
  "of_char (toLowerCaseChar c) = (if capitalCode (of_char c) then of_char c + 32 else (of_char c :: nat))"
proof -
  have "of_char c \<in> set ([65 ..< 91] @ [192 ..< 215] @ [216 ..< 223 :: nat])
          \<longleftrightarrow> capitalCode (of_char c)"
    unfolding capitalCode_def by (simp only: set_append set_upt) auto
  then show ?thesis
    unfolding toLowerCaseChar_def map_of_by_code[OF letters_by_code] by simp
qed

lemma toLowerCaseChar_eq_iff: "toLowerCaseChar c = toLowerCaseChar d \<longleftrightarrow> equalIgnoringCase c d"
proof -
  have "toLowerCaseChar c = toLowerCaseChar d
          \<longleftrightarrow> (of_char (toLowerCaseChar c) :: nat) = of_char (toLowerCaseChar d)"
    by simp
  also have "\<dots> \<longleftrightarrow> equalIgnoringCase c d"
    unfolding toLowerCaseChar_code equalIgnoringCase_def capitalCode_def
    by (simp only: of_char_eq_iff[symmetric, where 'a = nat]) presburger
  finally show ?thesis .
qed


lemma toLowerCase_eq_iff: "toLowerCase ys = toLowerCase p \<longleftrightarrow> list_all2 equalIgnoringCase ys p"
proof (induction ys arbitrary: p)
  case Nil
  then show ?case by (simp add: toLowerCase_def)
next
  case (Cons y ys)
  show ?case
  proof (cases p)
    case Nil
    then show ?thesis by (simp add: toLowerCase_def)
  next
    case (Cons d ds)
    have "toLowerCase ys = toLowerCase ds \<longleftrightarrow> list_all2 equalIgnoringCase ys ds"
      by (rule Cons.IH)
    then show ?thesis
      by (simp add: Cons toLowerCase_def toLowerCaseChar_eq_iff)
  qed
qed

lemma containsIgnoringCase_toLowerCase:
  "containsIgnoringCase q p \<longleftrightarrow> sublist (toLowerCase p) (toLowerCase q)"
proof
  assume "containsIgnoringCase q p"
  then obtain xs ys zs where q: "q = xs @ ys @ zs" and e: "list_all2 equalIgnoringCase ys p"
    unfolding containsIgnoringCase_def by blast
  from e have "toLowerCase ys = toLowerCase p"
    by (simp add: toLowerCase_eq_iff)
  then have "toLowerCase q = toLowerCase xs @ toLowerCase p @ toLowerCase zs"
    by (simp add: q toLowerCase_def)
  then show "sublist (toLowerCase p) (toLowerCase q)"
    unfolding sublist_def by blast
next
  assume "sublist (toLowerCase p) (toLowerCase q)"
  then obtain ps ss where "toLowerCase q = ps @ toLowerCase p @ ss"
    unfolding sublist_def by blast
  define rest where "rest = toLowerCase p @ ss"
  have "map toLowerCaseChar q = ps @ rest"
    using \<open>toLowerCase q = ps @ toLowerCase p @ ss\<close> by (simp add: toLowerCase_def rest_def)
  then obtain xs r where q: "q = xs @ r" and r: "map toLowerCaseChar r = rest"
    by (auto simp: map_eq_append_conv)
  from r have "map toLowerCaseChar r = toLowerCase p @ ss"
    by (simp add: rest_def)
  then obtain ys zs where r': "r = ys @ zs" and ys: "map toLowerCaseChar ys = toLowerCase p"
    by (auto simp: map_eq_append_conv)
  from ys have "toLowerCase ys = toLowerCase p"
    by (simp add: toLowerCase_def)
  then have "list_all2 equalIgnoringCase ys p"
    by (simp only: toLowerCase_eq_iff)
  with q r' show "containsIgnoringCase q p"
    unfolding containsIgnoringCase_def by blast
qed

lemma findByParentId_containsIgnoringCase:
  "findByParentId s p =
     filter (\<lambda>a. \<exists>q. parentId (deref s a) = Some q \<and> containsIgnoringCase q p) (findAll s)"
  by (simp add: findByParentId_filter containsIgnoringCase_toLowerCase)

text \<open>
  C5. \<open>findByParentId(p)\<close> returns, in the order of the repository, exactly the live topics
  whose \<open>parentId\<close> is a string that contains \<open>p\<close> without regard to case; a topic
  without parent is never returned. Hence a live topic whose \<open>parentId\<close> contains the id
  of a live topic \<open>a\<close>, in whatever case, is among the children found for \<open>a\<close>, whether or
  not that \<open>parentId\<close> is the id of \<open>a\<close>. The has-children check of \<open>delete\<close> is that this
  list is empty; the traversals, the graph of the path finder and the descendant walk are
  defined above through the same lookup.
\<close>

theorem findByParentId_substring:
  "findByParentId s p =
     filter (\<lambda>a. \<exists>q. parentId (deref s a) = Some q \<and> containsIgnoringCase q p) (findAll s)
   \<and> (\<forall>a b q. a \<in> set (findAll s) \<and> b \<in> set (findAll s) \<and> parentId (deref s b) = Some q
          \<and> containsIgnoringCase q (topic_id (deref s a))
        \<longrightarrow> b \<in> set (findByParentId s (topic_id (deref s a))))
   \<and> canDelete_topic s p = (findByParentId s p = [])"
proof (intro conjI allI impI)
  show "findByParentId s p =
     filter (\<lambda>a. \<exists>q. parentId (deref s a) = Some q \<and> containsIgnoringCase q p) (findAll s)"
    by (rule findByParentId_containsIgnoringCase)
next
  fix a b q
  assume "a \<in> set (findAll s) \<and> b \<in> set (findAll s) \<and> parentId (deref s b) = Some q
          \<and> containsIgnoringCase q (topic_id (deref s a))"
  then show "b \<in> set (findByParentId s (topic_id (deref s a)))"
    by (simp add: findByParentId_containsIgnoringCase)
next
  show "canDelete_topic s p = (findByParentId s p = [])"
    by (simp add: canDelete_topic_def)
qed

text \<open>
  In the store of \<open>a\<close>, \<open>ab\<close> and \<open>c\<close> under \<open>ab\<close>, the lookup for \<open>a\<close> returns \<open>c\<close>, whose
  parent is \<open>ab\<close>. In the store of \<open>k\<close>, \<open>Kb\<close>, \<open>c\<close> under \<open>Kb\<close> and \<open>d\<close> under \<open>k\<close>, the
  lookup for \<open>k\<close> and the lookup for \<open>K\<close> both return \<open>c\<close> and \<open>d\<close>, and the lookup for
  \<open>KB\<close> returns \<open>c\<close>: letters match in either case.
\<close>

theorem findByParentId_substring_witness:
  "findByParentId store_a_ab_c ''a'' = [2]
   \<and> parentId (deref store_a_ab_c 2) = Some ''ab''
   \<and> topic_id (deref store_a_ab_c 0) = ''a''
   \<and> 2 \<in> set (findByParentId store_a_ab_c (topic_id (deref store_a_ab_c 0)))
   \<and> \<not> canDelete_topic store_a_ab_c ''a''
   \<and> topic_id (deref store_mixed_case 0) = ''k''
   \<and> parentId (deref store_mixed_case 2) = Some ''Kb''
   \<and> parentId (deref store_mixed_case 3) = Some ''k''
   \<and> 2 \<in> set (findByParentId store_mixed_case (topic_id (deref store_mixed_case 0)))
   \<and> findByParentId store_mixed_case ''k'' = [2, 3]
   \<and> findByParentId store_mixed_case ''K'' = [2, 3]
   \<and> findByParentId store_mixed_case ''KB'' = [2]
   \<and> \<not> canDelete_topic store_mixed_case ''K''"
proof -
  have c1: "containsIgnoringCase ''ab'' ''a''" and c2: "containsIgnoringCase ''Kb'' ''k''"
    unfolding containsIgnoringCase_toLowerCase includes_str_sublist[symmetric]
    by code_simp+
  have live: "0 \<in> set (findAll store_a_ab_c) \<and> 2 \<in> set (findAll store_a_ab_c)
              \<and> parentId (deref store_a_ab_c 2) = Some ''ab''
              \<and> containsIgnoringCase ''ab'' (topic_id (deref store_a_ab_c 0))"
    using c1 by (simp add: store_a_ab_c_eq findAll_def map_values_def deref_def)
  have found: "findByParentId store_a_ab_c ''a'' = [2]"
    by code_simp
  have ids: "topic_id (deref store_mixed_case 0) = ''k''"
    "parentId (deref store_mixed_case 2) = Some ''Kb''"
    "parentId (deref store_mixed_case 3) = Some ''k''"
    "findAll store_mixed_case = [0, 1, 2, 3]"
    by code_simp+
  have live': "0 \<in> set (findAll store_mixed_case) \<and> 2 \<in> set (findAll store_mixed_case)
              \<and> parentId (deref store_mixed_case 2) = Some ''Kb''
              \<and> containsIgnoringCase ''Kb'' (topic_id (deref store_mixed_case 0))"
    using c2 by (simp add: ids)
  have found': "findByParentId store_mixed_case ''k'' = [2, 3]"
    "findByParentId store_mixed_case ''K'' = [2, 3]"
    "findByParentId store_mixed_case ''KB'' = [2]"
    by code_simp+
  note t1 = findByParentId_substring [of store_a_ab_c "''a''"]
  have "2 \<in> set (findByParentId store_a_ab_c (topic_id (deref store_a_ab_c 0)))"
    using t1[THEN conjunct2, THEN conjunct1, rule_format, OF live] .
  moreover have "\<not> canDelete_topic store_a_ab_c ''a''"
    using t1[THEN conjunct2, THEN conjunct2] found by simp
  ultimately
  have p1: "2 \<in> set (findByParentId store_a_ab_c (topic_id (deref store_a_ab_c 0)))
            \<and> \<not> canDelete_topic store_a_ab_c ''a''" ..
  note t2 = findByParentId_substring [of store_mixed_case "''K''"]
  have "2 \<in> set (findByParentId store_mixed_case (topic_id (deref store_mixed_case 0)))"
    using t2[THEN conjunct2, THEN conjunct1, rule_format, OF live'] .
  moreover have "\<not> canDelete_topic store_mixed_case ''K''"
    using t2[THEN conjunct2, THEN conjunct2] found' by simp
  ultimately
  have p2: "2 \<in> set (findByParentId store_mixed_case (topic_id (deref store_mixed_case 0)))
            \<and> \<not> canDelete_topic store_mixed_case ''K''" ..
  from p1 p2 found found' ids show ?thesis
    by (simp add: store_a_ab_c_eq deref_def)
qed

section \<open>The traversals visit the same topics\<close>

text \<open>
  The graph the traversals walk: from the id of a live topic to the ids of the children
  that the lookup finds for it.
\<close>

definition childIds :: "store \<Rightarrow> string \<Rightarrow> string list" where
  "childIds s x = map (\<lambda>child. topic_id (deref s child)) (findByParentId s x)"

definition edges :: "store \<Rightarrow> (string \<times> string) set" where
  "edges s = {(x, y). findById s x \<noteq> None \<and> y \<in> set (childIds s x)}"

definition reachableIds :: "store \<Rightarrow> string \<Rightarrow> string set" where
  "reachableIds s rootTopicId = (edges s)\<^sup>* `` {rootTopicId}"

definition foundTopics :: "store \<Rightarrow> string set \<Rightarrow> addr set" where
  "foundTopics s V = {a. \<exists>x\<in>V. findById s x = Some a}"

definition keys_are_ids :: "store \<Rightarrow> bool" where
  "keys_are_ids s = list_all (\<lambda>(k, a). topic_id (deref s a) = k) (data s)"

lemma foundTopics_insert_None: "findById s x = None \<Longrightarrow> foundTopics s (insert x V) = foundTopics s V"
  by (auto simp: foundTopics_def)

lemma foundTopics_insert_Some: "findById s x = Some a \<Longrightarrow> foundTopics s (insert x V) = insert a (foundTopics s V)"
  by (auto simp: foundTopics_def)

lemma foundTopics_Un: "foundTopics s (A \<union> B) = foundTopics s A \<union> foundTopics s B"
  by (auto simp: foundTopics_def)

lemma foundTopics_mono: "A \<subseteq> B \<Longrightarrow> foundTopics s A \<subseteq> foundTopics s B"
  by (auto simp: foundTopics_def)

lemma reach_step: "x \<in> (edges s)\<^sup>* `` A \<Longrightarrow> findById s x = Some a \<Longrightarrow> set (childIds s x) \<subseteq> (edges s)\<^sup>* `` A"
  by (auto simp: edges_def intro: rtrancl_into_rtrancl)

text \<open>
  What a depth-first call does to the accumulators: it marks its start ids, marks only ids
  reachable from them, leaves every newly marked id with all its successors marked, and
  adds to the result the live topics of the newly marked ids.
\<close>

definition dfs_post :: "store \<Rightarrow> string set \<Rightarrow> addr list \<times> string set \<Rightarrow> addr list \<times> string set \<Rightarrow> bool" where
  "dfs_post s starts st st' \<longleftrightarrow>
     snd st \<subseteq> snd st' \<and> starts \<subseteq> snd st'
     \<and> snd st' \<subseteq> snd st \<union> (edges s)\<^sup>* `` starts
     \<and> (\<forall>x \<in> snd st' - snd st. edges s `` {x} \<subseteq> snd st')
     \<and> set (fst st') = set (fst st) \<union> foundTopics s (snd st' - snd st)"

lemma dfs_spec:
  "dfs_post s {tid} st (dfsRecursive s tid st)"
  "dfs_post s (set (map (\<lambda>child. topic_id (deref s child)) cs)) st (dfs_children s cs st)"
proof (induction s tid st and s cs st rule: dfsRecursive_dfs_children.induct)
  case (1 s tid result visited)
  show ?case
  proof (cases "tid \<in> visited")
    case True
    then show ?thesis by (auto simp: dfs_post_def foundTopics_def)
  next
    case False
    show ?thesis
    proof (cases "findById s tid")
      case None
      then show ?thesis using False
        by (auto simp: dfs_post_def foundTopics_def edges_def)
    next
      case (Some topic)
      let ?st1 = "(result @ [topic], insert tid visited)"
      let ?st' = "dfs_children s (findByParentId s tid) ?st1"
      have ih: "dfs_post s (set (childIds s tid)) ?st1 ?st'"
        using 1 False Some by (simp add: childIds_def)
      have eq: "dfsRecursive s tid (result, visited) = ?st'"
        using False Some by simp
      have sub: "(edges s)\<^sup>* `` set (childIds s tid) \<subseteq> (edges s)\<^sup>* `` {tid}"
        using Some by (auto simp: edges_def intro: converse_rtrancl_into_rtrancl)
      have e: "edges s `` {tid} = set (childIds s tid)"
        using Some by (auto simp: edges_def)
      define V' where "V' = snd ?st'"
      have i1: "insert tid visited \<subseteq> V'" and i2: "set (childIds s tid) \<subseteq> V'"
        and i3: "V' \<subseteq> insert tid visited \<union> (edges s)\<^sup>* `` set (childIds s tid)"
        and i4: "\<forall>x \<in> V' - insert tid visited. edges s `` {x} \<subseteq> V'"
        and i5: "set (fst ?st') = set (result @ [topic]) \<union> foundTopics s (V' - insert tid visited)"
        using ih by (auto simp: dfs_post_def V'_def)
      have tidR: "tid \<in> (edges s)\<^sup>* `` {tid}" by simp
      have split: "V' - visited = insert tid (V' - insert tid visited)"
        using i1 False by auto
      have "snd (result, visited) \<subseteq> V'" using i1 by auto
      moreover have "{tid} \<subseteq> V'" using i1 by auto
      moreover have "V' \<subseteq> snd (result, visited) \<union> (edges s)\<^sup>* `` {tid}"
      proof
        fix x assume "x \<in> V'"
        then have "x = tid \<or> x \<in> visited \<or> x \<in> (edges s)\<^sup>* `` set (childIds s tid)"
          using i3 by blast
        then show "x \<in> snd (result, visited) \<union> (edges s)\<^sup>* `` {tid}"
          using sub tidR by auto
      qed
      moreover have "\<forall>x \<in> V' - snd (result, visited). edges s `` {x} \<subseteq> V'"
      proof
        fix x assume "x \<in> V' - snd (result, visited)"
        then consider "x = tid" | "x \<in> V' - insert tid visited" by auto
        then show "edges s `` {x} \<subseteq> V'"
        proof cases
          case 1 then show ?thesis using e i2 by simp
        next
          case 2 then show ?thesis using i4 by blast
        qed
      qed
      moreover have "set (fst ?st') = set (fst (result, visited)) \<union> foundTopics s (V' - snd (result, visited))"
      proof -
        have "set (fst ?st') = set result \<union> foundTopics s (insert tid (V' - insert tid visited))"
          using i5 Some by (simp add: foundTopics_insert_Some)
        then show ?thesis using split by simp
      qed
      ultimately show ?thesis unfolding eq dfs_post_def V'_def by blast
    qed
  qed
next
  case (2 s st)
  then show ?case by (simp add: dfs_post_def foundTopics_def)
next
  case (3 s child rest st)
  let ?c = "topic_id (deref s child)"
  let ?st1 = "dfsRecursive s ?c st"
  let ?st' = "dfs_children s rest ?st1"
  let ?R = "set (map (\<lambda>child. topic_id (deref s child)) rest)"
  have a: "dfs_post s {?c} st ?st1" using 3 by simp
  have b: "dfs_post s ?R ?st1 ?st'" using 3 by simp
  have a1: "snd st \<subseteq> snd ?st1" and a2: "?c \<in> snd ?st1"
    and a3: "snd ?st1 \<subseteq> snd st \<union> (edges s)\<^sup>* `` {?c}"
    using a by (simp_all add: dfs_post_def)
  have b1: "snd ?st1 \<subseteq> snd ?st'" and b2: "?R \<subseteq> snd ?st'"
    and b3: "snd ?st' \<subseteq> snd ?st1 \<union> (edges s)\<^sup>* `` ?R"
    using b by (simp_all add: dfs_post_def)
  have un: "snd ?st' - snd st = (snd ?st1 - snd st) \<union> (snd ?st' - snd ?st1)"
    using a1 b1 by blast
  have im: "(edges s)\<^sup>* `` insert ?c ?R = (edges s)\<^sup>* `` {?c} \<union> (edges s)\<^sup>* `` ?R"
    by blast
  have "snd st \<subseteq> snd ?st'" using a1 b1 by blast
  moreover have "insert ?c ?R \<subseteq> snd ?st'" using a2 b1 b2 by blast
  moreover have "snd ?st' \<subseteq> snd st \<union> (edges s)\<^sup>* `` insert ?c ?R"
    unfolding im using a3 b3 by blast
  moreover have "\<forall>x \<in> snd ?st' - snd st. edges s `` {x} \<subseteq> snd ?st'"
  proof
    fix x assume "x \<in> snd ?st' - snd st"
    then consider "x \<in> snd ?st1 - snd st" | "x \<in> snd ?st' - snd ?st1" using un by blast
    then show "edges s `` {x} \<subseteq> snd ?st'"
    proof cases
      case 1
      then have "edges s `` {x} \<subseteq> snd ?st1" using a unfolding dfs_post_def by blast
      then show ?thesis using b unfolding dfs_post_def by blast
    next
      case 2
      then show ?thesis using b unfolding dfs_post_def by blast
    qed
  qed
  moreover have "set (fst ?st') = set (fst st) \<union> foundTopics s (snd ?st' - snd st)"
  proof -
    have "set (fst ?st') = set (fst ?st1) \<union> foundTopics s (snd ?st' - snd ?st1)"
      using b by (simp add: dfs_post_def)
    also have "\<dots> = set (fst st) \<union> foundTopics s (snd ?st1 - snd st) \<union> foundTopics s (snd ?st' - snd ?st1)"
      using a by (simp add: dfs_post_def)
    finally show ?thesis unfolding un by (simp add: foundTopics_Un Un_assoc)
  qed
  ultimately show ?case unfolding dfs_post_def by simp
qed

lemma closed_reach:
  assumes "rootTopicId \<in> V" and "\<forall>x \<in> V. edges s `` {x} \<subseteq> V"
  shows "(edges s)\<^sup>* `` {rootTopicId} \<subseteq> V"
proof
  fix y assume "y \<in> (edges s)\<^sup>* `` {rootTopicId}"
  then have "(rootTopicId, y) \<in> (edges s)\<^sup>*" by simp
  then show "y \<in> V"
    by (induction rule: rtrancl_induct) (use assms in auto)
qed

lemma traverseDepthFirst_set:
  "set (traverseDepthFirst s rootTopicId) = foundTopics s (reachableIds s rootTopicId)"
proof -
  let ?st' = "dfsRecursive s rootTopicId ([], {})"
  have p: "dfs_post s {rootTopicId} ([], {}) ?st'" by (rule dfs_spec)
  have "snd ?st' \<subseteq> (edges s)\<^sup>* `` {rootTopicId}" using p by (auto simp: dfs_post_def)
  moreover have "(edges s)\<^sup>* `` {rootTopicId} \<subseteq> snd ?st'"
    using p by (intro closed_reach) (auto simp: dfs_post_def)
  ultimately have "snd ?st' = reachableIds s rootTopicId" by (auto simp: reachableIds_def)
  then show ?thesis using p by (simp add: dfs_post_def traverseDepthFirst_def)
qed


lemma bfs_loop_set:
  assumes "V \<union> set queue \<subseteq> (edges s)\<^sup>* `` {rootTopicId}"
    and "rootTopicId \<in> V \<union> set queue"
    and "\<forall>x\<in>V. edges s `` {x} \<subseteq> V \<union> set queue"
    and "set result = foundTopics s V"
  shows "set (bfs_loop s queue result V) = foundTopics s ((edges s)\<^sup>* `` {rootTopicId})"
  using assms
proof (induction s queue result V rule: bfs_loop.induct)
  case (1 s result visited)
  have "(edges s)\<^sup>* `` {rootTopicId} \<subseteq> visited"
    using 1 by (intro closed_reach) auto
  then have "visited = (edges s)\<^sup>* `` {rootTopicId}" using 1 by auto
  then show ?case using 1 by simp
next
  case (2 s cur queue result visited)
  let ?R = "(edges s)\<^sup>* `` {rootTopicId}"
  show ?case
  proof (cases "cur \<in> visited")
    case True
    have "set (bfs_loop s queue result visited) = foundTopics s ?R"
    proof (rule 2(1)[OF True])
      show "visited \<union> set queue \<subseteq> ?R" using 2(4) by auto
      show "rootTopicId \<in> visited \<union> set queue" using 2(5) True by auto
      show "\<forall>x\<in>visited. edges s `` {x} \<subseteq> visited \<union> set queue"
        using 2(6) True by auto
      show "set result = foundTopics s visited" by (rule 2(7))
    qed
    then show ?thesis using True by simp
  next
    case False
    have curR: "cur \<in> ?R" using 2(4) by auto
    show ?thesis
    proof (cases "findById s cur")
      case None
      have "set (bfs_loop s queue result (insert cur visited)) = foundTopics s ?R"
      proof (rule 2(2)[OF False None])
        show "insert cur visited \<union> set queue \<subseteq> ?R" using 2(4) by auto
        show "rootTopicId \<in> insert cur visited \<union> set queue" using 2(5) by auto
        have "edges s `` {cur} = {}" using None by (auto simp: edges_def)
        then show "\<forall>x\<in>insert cur visited. edges s `` {x} \<subseteq> insert cur visited \<union> set queue"
          using 2(6) by auto
        show "set result = foundTopics s (insert cur visited)"
          using 2(7) None by (simp add: foundTopics_insert_None)
      qed
      then show ?thesis using False None by simp
    next
      case (Some topic)
      let ?new = "map (\<lambda>child. topic_id (deref s child))
                    (filter (\<lambda>child. topic_id (deref s child) \<notin> insert cur visited)
                       (findByParentId s cur))"
      have e: "edges s `` {cur} = set (childIds s cur)"
        using Some by (auto simp: edges_def)
      have newset: "set ?new = set (childIds s cur) - insert cur visited"
        by (auto simp: childIds_def)
      have chR: "set (childIds s cur) \<subseteq> ?R"
        using curR Some by (rule reach_step)
      have "set (bfs_loop s (queue @ ?new) (result @ [topic]) (insert cur visited)) = foundTopics s ?R"
      proof (rule 2(3)[OF False Some])
        show "insert cur visited \<union> set (queue @ ?new) \<subseteq> ?R"
          using 2(4) chR newset by auto
        show "rootTopicId \<in> insert cur visited \<union> set (queue @ ?new)" using 2(5) by auto
        show "\<forall>x\<in>insert cur visited. edges s `` {x} \<subseteq> insert cur visited \<union> set (queue @ ?new)"
        proof
          fix x assume "x \<in> insert cur visited"
          then consider "x = cur" | "x \<in> visited" by auto
          then show "edges s `` {x} \<subseteq> insert cur visited \<union> set (queue @ ?new)"
          proof cases
            case 1
            then show ?thesis using e newset by auto
          next
            case 2
            then have "edges s `` {x} \<subseteq> visited \<union> set (cur # queue)"
              using \<open>\<forall>x\<in>visited. edges s `` {x} \<subseteq> visited \<union> set (cur # queue)\<close> by blast
            then show ?thesis by auto
          qed
        qed
        show "set (result @ [topic]) = foundTopics s (insert cur visited)"
          using 2(7) Some by (simp add: foundTopics_insert_Some)
      qed
      then show ?thesis using False Some by simp
    qed
  qed
qed

lemma traverseBreadthFirst_set:
  "set (traverseBreadthFirst s rootTopicId) = foundTopics s (reachableIds s rootTopicId)"
  unfolding traverseBreadthFirst_def reachableIds_def
  by (rule bfs_loop_set) (auto simp: foundTopics_def)

lemma keys_are_ids_findById:
  "keys_are_ids s \<Longrightarrow> findById s x = Some a \<Longrightarrow> topic_id (deref s a) = x"
  by (auto simp: keys_are_ids_def findById_def map_get_def list_all_iff dest!: map_of_SomeD)

definition ids_of :: "store \<Rightarrow> addr list \<Rightarrow> string list" where
  "ids_of s xs = map (\<lambda>a. topic_id (deref s a)) xs"

lemma dfs_distinct:
  "keys_are_ids s \<Longrightarrow> distinct (ids_of s (fst st)) \<Longrightarrow> set (ids_of s (fst st)) \<subseteq> snd st
   \<Longrightarrow> distinct (ids_of s (fst (dfsRecursive s tid st)))
       \<and> set (ids_of s (fst (dfsRecursive s tid st))) \<subseteq> snd (dfsRecursive s tid st)"
  "keys_are_ids s \<Longrightarrow> distinct (ids_of s (fst st)) \<Longrightarrow> set (ids_of s (fst st)) \<subseteq> snd st
   \<Longrightarrow> distinct (ids_of s (fst (dfs_children s cs st)))
       \<and> set (ids_of s (fst (dfs_children s cs st))) \<subseteq> snd (dfs_children s cs st)"
proof (induction s tid st and s cs st rule: dfsRecursive_dfs_children.induct)
  case (1 s tid result visited)
  show ?case
  proof (cases "tid \<in> visited")
    case True
    then show ?thesis using 1(3,4) by simp
  next
    case False
    show ?thesis
    proof (cases "findById s tid")
      case None
      then show ?thesis using False 1(3,4) by auto
    next
      case (Some topic)
      have tid: "topic_id (deref s topic) = tid"
        using 1(2) Some by (rule keys_are_ids_findById)
      have "distinct (ids_of s (fst (result @ [topic], insert tid visited)))"
        using 1(3,4) False tid by (auto simp: ids_of_def)
      moreover have "set (ids_of s (fst (result @ [topic], insert tid visited)))
                       \<subseteq> snd (result @ [topic], insert tid visited)"
        using 1(4) tid by (auto simp: ids_of_def)
      ultimately show ?thesis
        using 1(1)[OF False Some 1(2)] False Some by simp
    qed
  qed
next
  case (2 s st)
  then show ?case by simp
next
  case (3 s child rest st)
  then show ?case by simp
qed

lemma bfs_distinct:
  "keys_are_ids s \<Longrightarrow> distinct (ids_of s result) \<Longrightarrow> set (ids_of s result) \<subseteq> visited
   \<Longrightarrow> distinct (ids_of s (bfs_loop s queue result visited))"
proof (induction s queue result visited rule: bfs_loop.induct)
  case (1 s result visited)
  then show ?case by simp
next
  case (2 s cur queue result visited)
  show ?case
  proof (cases "cur \<in> visited")
    case True
    then show ?thesis using 2 by simp
  next
    case False
    show ?thesis
    proof (cases "findById s cur")
      case None
      then show ?thesis using False 2 by auto
    next
      case (Some topic)
      have tid: "topic_id (deref s topic) = cur"
        using 2(4) Some by (rule keys_are_ids_findById)
      have "distinct (ids_of s (result @ [topic]))"
        using 2(5,6) False tid by (auto simp: ids_of_def)
      moreover have "set (ids_of s (result @ [topic])) \<subseteq> insert cur visited"
        using 2(6) tid by (auto simp: ids_of_def)
      ultimately show ?thesis
        using 2(3)[OF False Some 2(4)] False Some by simp
    qed
  qed
qed

lemma traverse_not_live:
  "findById s rootTopicId = None \<Longrightarrow> traverseDepthFirst s rootTopicId = [] \<and> traverseBreadthFirst s rootTopicId = []"
  by (simp add: traverseDepthFirst_def traverseBreadthFirst_def)

text \<open>
  C9. For every root id, \<open>traverseDepthFirst\<close> and \<open>traverseBreadthFirst\<close> return lists
  with the same set of topics, hence the same set of ids; in a repository whose keys are
  the ids of the topics they hold (every write is \<open>data.set(entity.id, entity)\<close>), each
  id occurs exactly once in either list, so the lists have the same length; and both lists
  are empty when the root is not a live topic. Both functions are total: the recursion and
  the loop are shown to end above.
\<close>

theorem traversals_same_set:
  "set (traverseDepthFirst s rootTopicId) = set (traverseBreadthFirst s rootTopicId)
   \<and> set (ids_of s (traverseDepthFirst s rootTopicId)) = set (ids_of s (traverseBreadthFirst s rootTopicId))
   \<and> (keys_are_ids s \<longrightarrow>
        distinct (ids_of s (traverseDepthFirst s rootTopicId))
        \<and> distinct (ids_of s (traverseBreadthFirst s rootTopicId))
        \<and> length (traverseDepthFirst s rootTopicId) = length (traverseBreadthFirst s rootTopicId))
   \<and> (findById s rootTopicId = None \<longrightarrow>
        traverseDepthFirst s rootTopicId = [] \<and> traverseBreadthFirst s rootTopicId = [])"
proof -
  have sets: "set (traverseDepthFirst s rootTopicId) = set (traverseBreadthFirst s rootTopicId)"
    by (simp add: traverseDepthFirst_set traverseBreadthFirst_set)
  then have ids: "set (ids_of s (traverseDepthFirst s rootTopicId)) = set (ids_of s (traverseBreadthFirst s rootTopicId))"
    by (simp add: ids_of_def)
  have dist: "distinct (ids_of s (traverseDepthFirst s rootTopicId))
              \<and> distinct (ids_of s (traverseBreadthFirst s rootTopicId))
              \<and> length (traverseDepthFirst s rootTopicId) = length (traverseBreadthFirst s rootTopicId)"
    if k: "keys_are_ids s"
  proof -
    have d1: "distinct (ids_of s (traverseDepthFirst s rootTopicId))"
      using dfs_distinct(1)[OF k, of "([], {})" rootTopicId]
      by (simp add: traverseDepthFirst_def ids_of_def)
    have d2: "distinct (ids_of s (traverseBreadthFirst s rootTopicId))"
      using bfs_distinct[OF k, of "[]" "{}" "[rootTopicId]"]
      by (simp add: traverseBreadthFirst_def ids_of_def)
    have "length (ids_of s (traverseDepthFirst s rootTopicId)) = length (ids_of s (traverseBreadthFirst s rootTopicId))"
      using d1 d2 ids by (metis distinct_card)
    then show ?thesis using d1 d2 by (simp add: ids_of_def)
  qed
  show ?thesis using sets ids dist traverse_not_live by blast
qed

text \<open>
  A root \<open>p\<close> with children \<open>c1\<close> and \<open>c2\<close>, and \<open>g\<close> under \<open>c1\<close>: the two orders differ,
  the topics are the same.
\<close>

theorem traversals_same_set_witness:
  "keys_are_ids store_tree
   \<and> traverseDepthFirst store_tree ''p'' = [0, 1, 3, 2]
   \<and> traverseBreadthFirst store_tree ''p'' = [0, 1, 2, 3]
   \<and> set (traverseDepthFirst store_tree ''p'') = set (traverseBreadthFirst store_tree ''p'')
   \<and> distinct (ids_of store_tree (traverseDepthFirst store_tree ''p''))
   \<and> distinct (ids_of store_tree (traverseBreadthFirst store_tree ''p''))
   \<and> findById store_tree ''zz'' = None
   \<and> traverseDepthFirst store_tree ''zz'' = []
   \<and> traverseBreadthFirst store_tree ''zz'' = []"
proof -
  have k: "keys_are_ids store_tree" by code_simp
  have d: "traverseDepthFirst store_tree ''p'' = [0, 1, 3, 2]" by code_simp
  have b: "traverseBreadthFirst store_tree ''p'' = [0, 1, 2, 3]" by code_simp
  have n: "findById store_tree ''zz'' = None" by code_simp
  from traversals_same_set [of store_tree "''p''"] traversals_same_set [of store_tree "''zz''"] k d b n
  show ?thesis by simp
qed

section \<open>Versions\<close>

lemma map_get_map_set: "map_get (map_set m k v) k' = (if k' = k then Some v else map_get m k')"
  by (simp add: map_get_def map_set_def update_conv')

lemma deref_alloc: "alloc s t = (a, s1) \<Longrightarrow> deref s1 a = t \<and> a = length (heap s)"
  by (auto simp: alloc_def deref_def)

text \<open>Integers up to \<open>2^53\<close> in magnitude are doubles, so a sum in that range is exact.\<close>

lemma bitLength_le: "bitLength n \<le> k \<longleftrightarrow> n < 2 ^ k"
proof (induction n arbitrary: k rule: bitLength.induct)
  case (1 n)
  show ?case
  proof (cases "n \<le> 0")
    case True
    have "(0::int) < 2 ^ k" by simp
    with True have "n < 2 ^ k" by linarith
    with True show ?thesis by (simp add: bitLength.simps)
  next
    case False
    show ?thesis
    proof (cases k)
      case 0
      with False show ?thesis by (simp add: bitLength.simps)
    next
      case (Suc j)
      have "bitLength n \<le> Suc j \<longleftrightarrow> bitLength (n div 2) \<le> j"
        using False by (subst bitLength.simps) simp
      also have "\<dots> \<longleftrightarrow> n div 2 < 2 ^ j"
        using 1[OF False] by simp
      also have "\<dots> \<longleftrightarrow> n < 2 ^ Suc j"
        by auto
      finally show ?thesis using Suc by simp
    qed
  qed
qed

lemma roundToDouble_exact:
  assumes "\<bar>x\<bar> \<le> 2 ^ 53"
  shows "roundToDouble x = x"
proof (cases "\<bar>x\<bar> < 2 ^ 53")
  case True
  then show ?thesis
    by (simp add: roundToDouble_def bitLength_le Let_def)
next
  case False
  with assms have "x = 9007199254740992 \<or> x = - 9007199254740992" by auto
  then show ?thesis
  proof
    assume "x = 9007199254740992"
    then show ?thesis by (simp add: roundToDouble_def bitLength.simps Let_def)
  next
    assume "x = - 9007199254740992"
    then show ?thesis by (simp add: roundToDouble_def bitLength.simps Let_def)
  qed
qed

lemma jsAdd_one: "- (2 ^ 53) \<le> v \<Longrightarrow> v < 2 ^ 53 \<Longrightarrow> jsAdd v 1 = v + 1"
  unfolding jsAdd_def by (rule roundToDouble_exact) auto

lemma createNewVersion_result:
  assumes "findById s tid = Some old"
  shows "\<exists>a s'. createNewVersion s tid upd = (Inr a, s')
          \<and> deref s' a = createNewVersion_topic (deref s old) (Some (content upd)) (Some (name upd)) (clock s)
          \<and> findById s' tid = Some a
          \<and> findByVersion s' tid (jsAdd (version (deref s old)) 1) = Some a"
  using assms
  by (simp add: createNewVersion_def alloc_def deref_def Let_def findById_def findByVersion_def
        map_get_map_set createNewVersion_topic_def new_Topic_def)

lemma createNewVersion_topic_fields:
  "topic_id (createNewVersion_topic t c n now) = topic_id t"
  "version (createNewVersion_topic t c n now) = jsAdd (version t) 1"
  "parentId (createNewVersion_topic t c n now) = parentId t"
  by (simp_all add: createNewVersion_topic_def new_Topic_def orElse_def)

lemma createNewVersions_versions:
  "findById s tid = Some old \<Longrightarrow> - (2 ^ 53) \<le> version (deref s old) \<Longrightarrow>
   version (deref s old) + int (length us) \<le> 2 ^ 53 \<Longrightarrow>
   fst (createNewVersions s tid us) = map (\<lambda>i. version (deref s old) + int i) [1 ..< Suc (length us)]"
proof (induction us arbitrary: s old)
  case Nil
  then show ?case by simp
next
  case (Cons u us)
  obtain a s' where r: "createNewVersion s tid u = (Inr a, s')"
    and d: "deref s' a = createNewVersion_topic (deref s old) (Some (content u)) (Some (name u)) (clock s)"
    and f: "findById s' tid = Some a"
    using createNewVersion_result[OF Cons.prems(1)] by blast
  have "version (deref s old) < 2 ^ 53"
    using Cons.prems(3) by simp
  then have v: "version (deref s' a) = version (deref s old) + 1"
    using d Cons.prems(2) by (simp add: createNewVersion_topic_fields jsAdd_one)
  have lo: "- (2 ^ 53) \<le> version (deref s' a)"
    using v Cons.prems(2) by simp
  have hi: "version (deref s' a) + int (length us) \<le> 2 ^ 53"
    using v Cons.prems(3) by simp
  have ih: "fst (createNewVersions s' tid us) = map (\<lambda>i. version (deref s' a) + int i) [1 ..< Suc (length us)]"
    using Cons.IH[OF f lo hi] .
  have "map (\<lambda>i. version (deref s old) + int i) [1 ..< Suc (length (u # us))]
          = (version (deref s old) + 1) # map (\<lambda>i. version (deref s old) + 1 + int i) [1 ..< Suc (length us)]"
  proof -
    have "[1 ..< Suc (Suc (length us))] = 1 # map Suc [1 ..< Suc (length us)]"
      by (metis One_nat_def map_Suc_upt upt_conv_Cons zero_less_Suc Suc_less_eq)
    then show ?thesis by (simp add: comp_def)
  qed
  then show ?case using r v ih by (simp add: split_beta)
qed

text \<open>
  C2, as amended. A topic made by the constructor without a version has version 1, and so
  has the topic that \<open>TopicService.create\<close> stores under a fresh identifier: it is then the
  live record and version 1 of its history. \<open>createNewVersion\<close> on a live id always
  succeeds and stores a record with the id of the live record, as the new live record and
  under its version in the history; its version is the sum of the live version and one as
  the addition of numbers computes it. When the live version \<open>v\<close> is an integer from
  \<open>- 2^53\<close> up to but not \<open>2^53\<close>, that sum is \<open>v + 1\<close>; and \<open>k\<close> successive calls produce
  the versions \<open>v + 1, ..., v + k\<close>, with no gap and no repetition, as long as \<open>v + k\<close> is at
  most \<open>2^53\<close>.
\<close>

theorem versions_start_at_one_and_increase:
  "version (new_Topic nm ct par ident None uuid now) = 1
   \<and> (\<forall>a s'. create s dat uuid = (Inr a, s') \<and> \<not> exists_topic s uuid
        \<longrightarrow> version (deref s' a) = 1 \<and> topic_id (deref s' a) = uuid
            \<and> findById s' uuid = Some a \<and> findByVersion s' uuid 1 = Some a)
   \<and> (\<forall>old. findById s tid = Some old
        \<longrightarrow> (\<exists>a s'. createNewVersion s tid upd = (Inr a, s')
               \<and> topic_id (deref s' a) = topic_id (deref s old)
               \<and> version (deref s' a) = jsAdd (version (deref s old)) 1
               \<and> findById s' tid = Some a
               \<and> findByVersion s' tid (version (deref s' a)) = Some a
               \<and> (- (2 ^ 53) \<le> version (deref s old) \<and> version (deref s old) < 2 ^ 53
                    \<longrightarrow> version (deref s' a) = version (deref s old) + 1))
            \<and> (- (2 ^ 53) \<le> version (deref s old)
                  \<and> version (deref s old) + int (length us) \<le> 2 ^ 53
                \<longrightarrow> fst (createNewVersions s tid us)
                      = map (\<lambda>i. version (deref s old) + int i) [1 ..< Suc (length us)]))"
proof -
  have p1: "version (new_Topic nm ct par ident None uuid now) = 1"
    by (simp add: new_Topic_def)
  have p2: "version (deref s' a) = 1 \<and> topic_id (deref s' a) = uuid
            \<and> findById s' uuid = Some a \<and> findByVersion s' uuid 1 = Some a"
    if "create s dat uuid = (Inr a, s') \<and> \<not> exists_topic s uuid" for a s'
    using that
    by (auto simp: create_def alloc_def Let_def create_topic_def create_base_def deref_def
          new_Topic_def orElse_def exists_topic_def findById_def findByVersion_def
          map_get_map_set map_has_def
          split: if_splits)
  have p3: "\<exists>a s'. createNewVersion s tid upd = (Inr a, s')
               \<and> topic_id (deref s' a) = topic_id (deref s old)
               \<and> version (deref s' a) = jsAdd (version (deref s old)) 1
               \<and> findById s' tid = Some a
               \<and> findByVersion s' tid (version (deref s' a)) = Some a
               \<and> (- (2 ^ 53) \<le> version (deref s old) \<and> version (deref s old) < 2 ^ 53
                    \<longrightarrow> version (deref s' a) = version (deref s old) + 1)"
    if f: "findById s tid = Some old" for old
  proof -
    from createNewVersion_result[OF f, of upd]
    obtain a s' where r: "createNewVersion s tid upd = (Inr a, s')"
      and d: "deref s' a = createNewVersion_topic (deref s old) (Some (content upd)) (Some (name upd)) (clock s)"
      and l: "findById s' tid = Some a"
      and h: "findByVersion s' tid (jsAdd (version (deref s old)) 1) = Some a"
      by blast
    have i: "topic_id (deref s' a) = topic_id (deref s old)"
      and v: "version (deref s' a) = jsAdd (version (deref s old)) 1"
      using d by (simp_all add: createNewVersion_topic_fields)
    have e: "version (deref s' a) = version (deref s old) + 1"
      if "- (2 ^ 53) \<le> version (deref s old) \<and> version (deref s old) < 2 ^ 53"
      using that v by (simp add: jsAdd_one)
    from r i v l h e show ?thesis by auto
  qed
  have p4: "fst (createNewVersions s tid us)
                = map (\<lambda>i. version (deref s old) + int i) [1 ..< Suc (length us)]"
    if "findById s tid = Some old"
      and "- (2 ^ 53) \<le> version (deref s old) \<and> version (deref s old) + int (length us) \<le> 2 ^ 53"
    for old
    using that by (simp add: createNewVersions_versions)
  show ?thesis using p1 p2 p3 p4 by blast
qed

text \<open>
  The update scenario: created through the service, the topic has version 1; the new
  version is 2, the history then lists the versions 2 and 1, and version 1 still holds
  the first content. Three calls in a row give the versions 2, 3 and 4.
\<close>

theorem versions_start_at_one_and_increase_witness:
  "\<not> exists_topic emptyStore ''t''
   \<and> create emptyStore dataT ''t'' = (Inr 0, store_T)
   \<and> version (deref store_T 0) = 1
   \<and> findById store_T ''t'' = Some 0
   \<and> (case createNewVersion store_T ''t'' updateT of
         (Inr a, s') \<Rightarrow>
           topic_id (deref s' a) = ''t'' \<and> version (deref s' a) = 2
           \<and> findById s' ''t'' = Some a
           \<and> map (\<lambda>b. version (deref s' b)) (getAllVersions s' ''t'') = [2, 1]
           \<and> map_option (\<lambda>b. content (deref s' b)) (findByVersion s' ''t'' 1) = Some ''v1 content''
       | (Inl e, s') \<Rightarrow> False)
   \<and> fst (createNewVersions store_T ''t'' [updateT, updateT, updateT]) = [2, 3, 4]"
proof -
  have fresh: "\<not> exists_topic emptyStore ''t''" by code_simp
  have made: "create emptyStore dataT ''t'' = (Inr 0, store_T)" by code_simp
  have live: "findById store_T ''t'' = Some 0" by code_simp
  have id0: "topic_id (deref store_T 0) = ''t''" by code_simp
  have hist: "(case createNewVersion store_T ''t'' updateT of
         (Inr a, s') \<Rightarrow>
           map (\<lambda>b. version (deref s' b)) (getAllVersions s' ''t'') = [2, 1]
           \<and> map_option (\<lambda>b. content (deref s' b)) (findByVersion s' ''t'' 1) = Some ''v1 content''
       | (Inl e, s') \<Rightarrow> False)" by code_simp
  from versions_start_at_one_and_increase
         [where s = emptyStore and dat = dataT and uuid = "''t''"] fresh made
  have v1: "version (deref store_T 0) = 1" by blast
  have b1: "- (2 ^ 53) \<le> version (deref store_T 0) \<and> version (deref store_T 0) < 2 ^ 53"
    and b2: "- (2 ^ 53) \<le> version (deref store_T 0)
             \<and> version (deref store_T 0) + int (length [updateT, updateT, updateT]) \<le> 2 ^ 53"
    unfolding v1 by simp_all
  note t = versions_start_at_one_and_increase
         [where s = store_T and tid = "''t''" and upd = updateT and us = "[updateT, updateT, updateT]"]
  from t live b1
  obtain a s' where r: "createNewVersion store_T ''t'' updateT = (Inr a, s')"
    and i: "topic_id (deref s' a) = topic_id (deref store_T 0)"
    and v: "version (deref s' a) = version (deref store_T 0) + 1"
    and f: "findById s' ''t'' = Some a"
    by blast
  from t live b2
  have vs: "fst (createNewVersions store_T ''t'' [updateT, updateT, updateT])
               = map (\<lambda>i. version (deref store_T 0) + int i) [1 ..< Suc (length [updateT, updateT, updateT])]"
    by blast
  have "fst (createNewVersions store_T ''t'' [updateT, updateT, updateT]) = [2, 3, 4]"
    unfolding vs v1 by (simp add: upt_rec)
  then show ?thesis
    using fresh made live v1 hist r i v f id0 by simp
qed

text \<open>
  C2, as stated, fails at the live version \<open>2^53\<close>: the sum \<open>2^53 + 1\<close> is not a double
  and is rounded to \<open>2^53\<close>, so the new record has the version of the one before it, not
  one greater, and it takes its place in the history.
\<close>

theorem version_repeated_at_limit:
  "findById store_limit ''t'' = Some 0
   \<and> version (deref store_limit 0) = 9007199254740992
   \<and> isValid (deref store_limit 0)
   \<and> map (\<lambda>b. version (deref store_limit b)) (getAllVersions store_limit ''t'') = [9007199254740992]
   \<and> (case createNewVersion store_limit ''t'' updateT of
         (Inr a, s') \<Rightarrow>
           a = 1 \<and> findById s' ''t'' = Some a \<and> topic_id (deref s' a) = ''t''
           \<and> version (deref s' a) = 9007199254740992
           \<and> version (deref s' a) \<noteq> version (deref store_limit 0) + 1
           \<and> getAllVersions s' ''t'' = [a]
       | (Inl e, s') \<Rightarrow> False)"
  by code_simp

section \<open>Deleting\<close>

text \<open>
  A topic with a live child is not deleted; a topic for which the lookup finds no child
  is deleted with its whole version chain.
\<close>

lemma delete_with_child:
  assumes "permitted s userId canDelete" and "findById s tid = Some t"
    and "c \<in> set (findAll s)" and "parentId (deref s c) = Some tid"
  shows "delete s tid userId = (Inl HasChildrenError, s)"
proof -
  have "c \<in> set (findByParentId s tid)"
    using assms(3,4) by (auto simp: findByParentId_filter)
  then have "\<not> canDelete_topic s tid"
    by (auto simp: canDelete_topic_def)
  then show ?thesis using assms(1,2) by (simp add: delete_def)
qed

lemma map_get_map_delete: "map_get (map_delete m k) k = None"
  by (simp add: map_get_def map_delete_def delete_conv')

lemma map_has_map_get: "map_has m k = (map_get m k \<noteq> None)"
  by (simp add: map_has_def map_get_def)

lemma delete_without_found_children:
  assumes "permitted s userId canDelete" and "findById s tid = Some t"
    and "findByParentId s tid = []"
  shows "\<exists>s'. delete s tid userId = (Inr True, s')
           \<and> findById s' tid = None \<and> getAllVersions s' tid = []
           \<and> (\<forall>v. findByVersion s' tid v = None)"
  using assms
  by (simp add: delete_def canDelete_topic_def delete_topic_def delete_base_def Let_def
        findById_def getAllVersions_def findByVersion_def map_get_map_delete map_has_map_get)

text \<open>
  C4. In the store of \<open>a\<close>, \<open>ab\<close> and \<open>c\<close> under \<open>ab\<close>, the live topic \<open>a\<close> has no child: no
  live topic has \<open>a\<close> as its parent. Yet deleting it fails with the error for a topic
  with children and leaves the store as it was, because the lookup finds \<open>c\<close>, whose
  parent id \<open>ab\<close> contains \<open>a\<close>.
\<close>

theorem delete_leaf_refused:
  "findById store_a_ab_c ''a'' = Some 0
   \<and> list_all (\<lambda>b. parentId (deref store_a_ab_c b) \<noteq> Some ''a'') (findAll store_a_ab_c)
   \<and> delete store_a_ab_c ''a'' None = (Inl HasChildrenError, store_a_ab_c)"
  by code_simp


section \<open>Moving\<close>

text \<open>
  C1. Moving the only topic of a store under itself fails, but with the validation error
  of \<open>BaseRepository.update\<close>, not with the error of a circular reference: the walk over
  the descendants does not contain the topic itself. By then \<open>moveToParent\<close> has assigned
  the new parent to the live record, which is left as its own parent.
\<close>

theorem move_to_itself:
  "(case moveToParent 3 store_single ''a'' (Some ''a'') None of
      Some (Inl e, s') \<Rightarrow>
        e = ValidationFailed [''Topic cannot be its own parent'']
        \<and> findById store_single ''a'' = Some 0 \<and> findById s' ''a'' = Some 0
        \<and> parentId (deref store_single 0) = None
        \<and> parentId (deref s' 0) = Some ''a''
    | _ \<Rightarrow> False)"
  by code_simp

text \<open>
  What the walk over the descendants leaves as it was: the live records and the version
  maps, the number of objects, and of every object the id, the name, the content, the
  version and the time of creation.
\<close>

definition same_content :: "Topic \<Rightarrow> Topic \<Rightarrow> bool" where
  "same_content t t' \<longleftrightarrow>
     topic_id t' = topic_id t \<and> name t' = name t \<and> content t' = content t
     \<and> version t' = version t \<and> createdAt t' = createdAt t"

definition walk_frame :: "store \<Rightarrow> store \<Rightarrow> bool" where
  "walk_frame s s' \<longleftrightarrow>
     data s' = data s \<and> versionData s' = versionData s \<and> users s' = users s
     \<and> clock s' = clock s \<and> length (heap s') = length (heap s)
     \<and> (\<forall>b. same_content (deref s b) (deref s' b))"

lemma walk_frame_refl: "walk_frame s s"
  by (simp add: walk_frame_def same_content_def)

lemma walk_frame_trans: "walk_frame s s1 \<Longrightarrow> walk_frame s1 s2 \<Longrightarrow> walk_frame s s2"
  by (simp add: walk_frame_def same_content_def)

lemma deref_assign:
  "deref (assign s a t) b = (if b = a \<and> a < length (heap s) then t else deref s b)"
  by (cases "a < length (heap s)") (auto simp: deref_def assign_def nth_list_update list_update_beyond)

lemma assign_fields [simp]:
  "data (assign s a t) = data s" "versionData (assign s a t) = versionData s"
  "users (assign s a t) = users s" "clock (assign s a t) = clock s"
  "length (heap (assign s a t)) = length (heap s)"
  by (simp_all add: assign_def)

lemma walk_frame_assign:
  "same_content (deref s a) t \<Longrightarrow> walk_frame s (assign s a t)"
  by (simp add: walk_frame_def deref_assign same_content_def)

lemma walk_frame_touch: "walk_frame s (touch s a)"
  unfolding touch_def by (rule walk_frame_assign) (simp add: same_content_def)

lemma walk_frame_addChild: "walk_frame s (addChild s this child)"
proof (cases "topic_id (deref s child) \<in> set (children (deref s this))")
  case True
  then show ?thesis by (simp add: addChild_def walk_frame_refl)
next
  case False
  let ?s1 = "assign s this
               ((deref s this)\<lparr> children := children (deref s this) @ [topic_id (deref s child)] \<rparr>)"
  let ?s2 = "assign ?s1 this
               ((deref ?s1 this)\<lparr> childTopics :=
                    map_set (childTopics (deref ?s1 this)) (topic_id (deref ?s1 child)) child \<rparr>)"
  let ?s3 = "assign ?s2 child ((deref ?s2 child)\<lparr> parentId := Some (topic_id (deref ?s2 this)) \<rparr>)"
  have 1: "walk_frame s ?s1" by (rule walk_frame_assign) (simp add: same_content_def)
  have 2: "walk_frame ?s1 ?s2" by (rule walk_frame_assign) (simp add: same_content_def)
  have 3: "walk_frame ?s2 ?s3" by (rule walk_frame_assign) (simp add: same_content_def)
  have 4: "walk_frame ?s3 (touch ?s3 this)" by (rule walk_frame_touch)
  have "addChild s this child = touch ?s3 this"
    using False by (simp add: addChild_def Let_def)
  then show ?thesis
    using walk_frame_trans[OF walk_frame_trans[OF walk_frame_trans[OF 1 2] 3] 4] by simp
qed

lemma walk_frame_loadChildren:
  "loadChildrenRecursively n s this = Some s' \<Longrightarrow> walk_frame s s'"
  "loadChildren_loop n s this cs = Some s' \<Longrightarrow> walk_frame s s'"
proof (induction n s this and n s this cs arbitrary: s' and s' rule: loadChildrenRecursively_loadChildren_loop.induct)
  case (1 s this)
  then show ?case by simp
next
  case (2 n s this)
  then show ?case by simp
next
  case (3 n s this)
  then show ?case by (simp add: walk_frame_refl)
next
  case (4 n s this child rest)
  from 4(3) obtain s1 where
    a: "loadChildrenRecursively n (addChild s this child) child = Some s1"
    and b: "loadChildren_loop n s1 this rest = Some s'"
    by (auto split: option.splits)
  have "walk_frame s (addChild s this child)" by (rule walk_frame_addChild)
  moreover have "walk_frame (addChild s this child) s1" using 4(1)[OF a] .
  moreover have "walk_frame s1 s'" using 4(2)[OF a b] .
  ultimately show ?case by (blast intro: walk_frame_trans)
qed

lemma walk_frame_getAllDescendants:
  "getAllDescendants n s tid = Some (ds, s') \<Longrightarrow> walk_frame s s'"
  by (auto simp: getAllDescendants_def getTopicHierarchy_def walk_frame_refl
        split: option.splits prod.splits dest: walk_frame_loadChildren(1))

lemma walk_frame_wouldCreateCircularReference:
  "wouldCreateCircularReference n s tid p = Some (r, s') \<Longrightarrow> walk_frame s s'"
  by (auto simp: wouldCreateCircularReference_def split: option.splits prod.splits
        dest: walk_frame_getAllDescendants)

lemma walk_frame_findById: "walk_frame s s' \<Longrightarrow> findById s' = findById s"
  by (auto simp: walk_frame_def findById_def)

lemma map_set_same: "map_get m k = Some v \<Longrightarrow> map_set m k v = m"
  by (simp add: map_get_def map_set_def update_triv)

lemma objectAssign_parentId:
  "objectAssign t [(''parentId'', jsOfOption p)] = t\<lparr> parentId := p \<rparr>"
  by (cases p) (simp_all add: objectAssign_def jsOfOption_def)

lemma update_base_parentId:
  assumes "update_base s tid [(''parentId'', jsOfOption p)] = (Inr (Some a), s')"
  shows "findById s tid = Some a \<and> walk_frame s s'
         \<and> (a < length (heap s) \<longrightarrow> parentId (deref s' a) = p)"
proof -
  from assms obtain e where e: "map_get (data s) tid = Some e"
    by (auto simp: update_base_def split: option.splits)
  let ?s1 = "assign s e (objectAssign (deref s e) [(''parentId'', jsOfOption p)])"
  let ?s2 = "assign ?s1 e ((deref ?s1 e)\<lparr> updatedAt := clock ?s1 \<rparr>)"
  from assms e have a: "a = e" and s': "s' = ?s2\<lparr> data := map_set (data ?s2) tid e \<rparr>"
    by (auto simp: update_base_def Let_def split: if_splits)
  have d: "data s' = data s" using s' e by (simp add: map_set_same)
  have 1: "walk_frame s ?s1"
    by (rule walk_frame_assign) (simp add: objectAssign_parentId same_content_def)
  have 2: "walk_frame ?s1 ?s2"
    by (rule walk_frame_assign) (simp add: same_content_def)
  have 3: "walk_frame ?s2 s'"
    using s' e by (simp add: walk_frame_def map_set_same deref_def same_content_def)
  have "walk_frame s s'" using walk_frame_trans[OF walk_frame_trans[OF 1 2] 3] .
  moreover have "parentId (deref s' a) = p" if "a < length (heap s)"
    using that a s' by (simp add: deref_def assign_def objectAssign_parentId)
  ultimately show ?thesis using e a by (simp add: findById_def)
qed

lemma moveToParent_repo_frame:
  assumes "moveToParent_repo n s tid p = Some (Inr (Some a), s')"
  shows "findById s tid = Some a \<and> walk_frame s s'
         \<and> (a < length (heap s) \<longrightarrow> parentId (deref s' a) = p)"
proof -
  from assms obtain t where t: "findById s tid = Some t"
    by (auto simp: moveToParent_repo_def split: option.splits)
  from assms t obtain s1 where
    w: "(if truthy p
         then (case getAllDescendants n s tid of
                 None \<Rightarrow> None
               | Some (descendants, s') \<Rightarrow>
                   Some (list_ex (\<lambda>d. topic_id (deref s' d) = the p) descendants, s'))
         else Some (False, s)) = Some (False, s1)"
    and u: "update_base (assign s1 t ((deref s1 t)\<lparr> parentId := p \<rparr>)) tid
              [(''parentId'', jsOfOption p)] = (Inr (Some a), s')"
    by (auto simp: moveToParent_repo_def Let_def split: option.splits if_splits prod.splits bool.splits)
  have f1: "walk_frame s s1"
    using w by (auto simp: walk_frame_refl split: if_splits option.splits prod.splits
                  dest: walk_frame_getAllDescendants)
  let ?s2 = "assign s1 t ((deref s1 t)\<lparr> parentId := p \<rparr>)"
  have f2: "walk_frame s1 ?s2"
    by (rule walk_frame_assign) (simp add: same_content_def)
  from update_base_parentId[OF u]
  have f3: "findById ?s2 tid = Some a" "walk_frame ?s2 s'"
    "a < length (heap ?s2) \<longrightarrow> parentId (deref s' a) = p" by simp_all
  have fr: "walk_frame s s'" using walk_frame_trans[OF walk_frame_trans[OF f1 f2] f3(2)] .
  have "findById ?s2 tid = findById s tid"
    using walk_frame_trans[OF f1 f2] by (simp add: walk_frame_findById)
  then have "findById s tid = Some a" using f3(1) by simp
  moreover have "length (heap ?s2) = length (heap s)"
    using walk_frame_trans[OF f1 f2] by (simp add: walk_frame_def)
  ultimately show ?thesis using fr f3(3) by simp
qed

text \<open>
  What a successful move does to the moved topic and to the versions: the new parent is the
  parent of the live record of the id, which is the same object as before; its version,
  id, name, content and time of creation are as they were; no live record and no entry of
  a version history is added or removed, and every history lists the same versions. (The
  address of the live record is the address of an object, as it is in every store the
  operations build.)
\<close>

lemma move_keeps_versions:
  assumes "moveToParent n s tid newParentId userId = Some (Inr (Some a), s')"
    and "a < length (heap s)"
  shows "findById s tid = Some a \<and> findById s' tid = Some a
         \<and> parentId (deref s' a) = newParentId
         \<and> version (deref s' a) = version (deref s a)
         \<and> data s' = data s \<and> versionData s' = versionData s
         \<and> getAllVersions s' tid = getAllVersions s tid
         \<and> walk_frame s s'"
proof -
  from assms(1) obtain s1 where
    w: "(if truthy newParentId
         then wouldCreateCircularReference n s tid (the newParentId)
         else Some (False, s)) = Some (False, s1)"
    and m: "moveToParent_repo n s1 tid newParentId = Some (Inr (Some a), s')"
    by (auto simp: moveToParent_def split: if_splits option.splits prod.splits bool.splits)
  have f1: "walk_frame s s1"
    using w by (auto simp: walk_frame_refl split: if_splits
                  dest: walk_frame_wouldCreateCircularReference)
  from moveToParent_repo_frame[OF m]
  have f2: "findById s1 tid = Some a" "walk_frame s1 s'"
    "a < length (heap s1) \<longrightarrow> parentId (deref s' a) = newParentId" by simp_all
  have fr: "walk_frame s s'" using walk_frame_trans[OF f1 f2(2)] .
  have l: "length (heap s1) = length (heap s)" using f1 by (simp add: walk_frame_def)
  have v: "\<And>b. version (deref s' b) = version (deref s b)"
    using fr by (simp add: walk_frame_def same_content_def)
  have "getAllVersions s' tid = getAllVersions s tid"
    using fr by (simp add: getAllVersions_def walk_frame_def v split: option.splits)
  moreover have "findById s tid = Some a" "findById s' tid = Some a"
    using f2(1) walk_frame_findById[OF f1] walk_frame_findById[OF fr] by simp_all
  moreover have "parentId (deref s' a) = newParentId"
    using f2(3) l assms(2) by simp
  moreover have "data s' = data s" "versionData s' = versionData s"
    using fr by (simp_all add: walk_frame_def)
  ultimately show ?thesis
    using fr v by simp
qed

text \<open>
  The walk over the descendants fills the children list and the \<open>childTopics\<close> map of the
  topics it visits: moving \<open>c1\<close> of the example tree under \<open>c2\<close> records \<open>g\<close> with \<open>c1\<close>.
\<close>

lemma move_refreshes_children:
  "(case moveToParent 3 store_tree ''c1'' (Some ''c2'') None of
      Some (Inr (Some a), s') \<Rightarrow>
        findById store_tree ''c1'' = Some a
        \<and> children (deref store_tree a) = [] \<and> children (deref s' a) = [''g'']
        \<and> childTopics (deref store_tree a) = [] \<and> childTopics (deref s' a) = [(''g'', 3)]
    | _ \<Rightarrow> False)"
  by code_simp

text \<open>
  C7. In the store of \<open>a\<close>, \<open>ab\<close> and \<open>c\<close> under \<open>ab\<close>, moving \<open>a\<close> under \<open>ab\<close> succeeds and
  makes \<open>ab\<close> the parent of \<open>a\<close>, and it also changes the parent of \<open>c\<close>, a topic that is
  neither moved nor under \<open>a\<close>, from \<open>ab\<close> to \<open>a\<close>: the walk over the descendants of \<open>a\<close>
  finds \<open>c\<close>, whose parent id \<open>ab\<close> contains \<open>a\<close>, and \<open>addChild\<close> makes \<open>a\<close> its parent.
  The versions and the histories are as they were.
\<close>

theorem move_reparents_other_topic:
  "(case moveToParent 3 store_a_ab_c ''a'' (Some ''ab'') None of
      Some (Inr (Some a), s') \<Rightarrow>
        findById store_a_ab_c ''a'' = Some a \<and> findById s' ''a'' = Some a
        \<and> parentId (deref store_a_ab_c a) = None \<and> parentId (deref s' a) = Some ''ab''
        \<and> findById store_a_ab_c ''c'' = Some 2 \<and> findById s' ''c'' = Some 2
        \<and> parentId (deref store_a_ab_c 2) = Some ''ab''
        \<and> parentId (deref s' 2) = Some ''a''
        \<and> map version (heap s') = [1, 1, 1]
        \<and> versionData s' = versionData store_a_ab_c
    | _ \<Rightarrow> False)"
  by code_simp


section \<open>Updating\<close>
























section \<open>The shortest path\<close>

text \<open>
  The scan for the least distance reads the distance 0 of the start as \<open>Infinity\<close>, so
  it finds no node and the loop stops at once: for two different ids the result is
  \<open>null\<close>, whatever the store. For one id twice it is the single-element path of a live
  topic, and \<open>null\<close> otherwise.
\<close>

lemma selectMin_all_infinite:
  "\<forall>n \<in> set unvisited. orInfinity (map_get distances n) = \<infinity>
   \<Longrightarrow> selectMin distances unvisited (None, \<infinity>) = (None, \<infinity>)"
  by (induction unvisited) auto

lemma map_get_initial_distances:
  "orInfinity (map_get (map (\<lambda>k. (k, if k = startTopicId then 0 else \<infinity>)) ks) n) = \<infinity>"
  by (induction ks) (auto simp: map_get_def orInfinity_def)

lemma orNull_initial_previous:
  "orNull (map_get (map (\<lambda>k. (k, None)) ks) n) = None"
  by (induction ks) (auto simp: map_get_def orNull_def)

lemma findShortestPath_distinct:
  assumes "startTopicId \<noteq> endTopicId"
  shows "findShortestPath s startTopicId endTopicId = Some None"
proof -
  let ?g = "buildTopicGraph s"
  let ?d = "map (\<lambda>k. (k, if k = startTopicId then 0 else \<infinity>)) (map_keys ?g)"
  let ?p = "map (\<lambda>k. (k, None :: string option)) (map_keys ?g)"
  have sel: "selectMin ?d (map_keys ?g) (None, \<infinity>) = (None, \<infinity>)"
    by (rule selectMin_all_infinite) (simp add: map_get_initial_distances)
  have dij: "dijkstra ?g endTopicId (?d, ?p, map_keys ?g) = (?d, ?p, map_keys ?g)"
    using sel by simp
  have rec: "reconstruct ?p (Some endTopicId) [] = Some [endTopicId]"
    by (simp add: reconstruct.simps orNull_initial_previous)
  show ?thesis
    using assms dij rec by (simp add: findShortestPath_def Let_def)
qed

lemma findShortestPath_same:
  "findShortestPath s a a = Some (case findById s a of None \<Rightarrow> None | Some t \<Rightarrow> Some [t])"
  by (simp add: findShortestPath_def)

lemma findShortestPath_not_live:
  "findById s a = None \<or> findById s b = None \<Longrightarrow> findShortestPath s a b = Some None"
  by (cases "a = b") (auto simp: findShortestPath_same findShortestPath_distinct)

text \<open>
  C3. On a parent \<open>p\<close> and its child \<open>c\<close>, both live and joined by an edge of the graph,
  \<open>findShortestPath\<close> from \<open>p\<close> to \<open>c\<close> returns \<open>null\<close>.
\<close>

theorem shortest_path_parent_child:
  "findById store_parent_child ''p'' = Some 0
   \<and> findById store_parent_child ''c'' = Some 1
   \<and> parentId (deref store_parent_child 1) = Some ''p''
   \<and> buildTopicGraph store_parent_child = [(''p'', [''c'']), (''c'', [''p''])]
   \<and> findShortestPath store_parent_child ''p'' ''c'' = Some None"
  by code_simp


section \<open>Relationships\<close>

lemma getRelationship_distant_type:
  "getRelationship_distant s a b ta tb = Some r
   \<Longrightarrow> rel_type r \<noteq> ParentChild \<and> rel_type r \<noteq> ChildParent"
  unfolding getRelationship_distant_def
  by (auto split: option.splits bool.splits prod.splits)

lemma getRelationship_ParentChild:
  assumes "findById s a = Some ta" and "findById s b = Some tb"
  shows "(\<exists>r. getRelationship s a b = Some r \<and> rel_type r = ParentChild)
         \<longleftrightarrow> a \<noteq> b \<and> parentId (deref s ta) \<noteq> Some b \<and> parentId (deref s tb) = Some a"
  using assms getRelationship_distant_type[of s a b ta tb]
  by (auto simp: getRelationship_def)

lemma getRelationship_ChildParent:
  assumes "findById s a = Some ta" and "findById s b = Some tb"
  shows "(\<exists>r. getRelationship s a b = Some r \<and> rel_type r = ChildParent)
         \<longleftrightarrow> a \<noteq> b \<and> parentId (deref s ta) = Some b"
  using assms getRelationship_distant_type[of s a b ta tb]
  by (auto simp: getRelationship_def)

lemma getRelationship_direct_distance:
  assumes "getRelationship s a b = Some r" and "rel_type r = ParentChild \<or> rel_type r = ChildParent"
  shows "distance r = 1"
  using assms getRelationship_distant_type[of s a b _ _ r]
  by (auto simp: getRelationship_def split: if_splits option.splits prod.splits)

text \<open>
  C10, as amended. For two live topics \<open>a\<close> and \<open>b\<close> that are not each the parent of the
  other, \<open>getRelationship(a, b)\<close> returns the type parent-child exactly when
  \<open>getRelationship(b, a)\<close> returns the type child-parent, and then both report the same
  distance.
\<close>

theorem relationship_parent_child_symmetric:
  assumes "findById s a = Some ta" and "findById s b = Some tb"
    and "\<not> (parentId (deref s ta) = Some b \<and> parentId (deref s tb) = Some a)"
  shows "((\<exists>r. getRelationship s a b = Some r \<and> rel_type r = ParentChild)
           \<longleftrightarrow> (\<exists>r'. getRelationship s b a = Some r' \<and> rel_type r' = ChildParent))
         \<and> (\<forall>r r'. getRelationship s a b = Some r \<and> rel_type r = ParentChild
                  \<and> getRelationship s b a = Some r' \<and> rel_type r' = ChildParent
               \<longrightarrow> distance r = distance r')"
proof
  show "(\<exists>r. getRelationship s a b = Some r \<and> rel_type r = ParentChild)
           \<longleftrightarrow> (\<exists>r'. getRelationship s b a = Some r' \<and> rel_type r' = ChildParent)"
    unfolding getRelationship_ParentChild[OF assms(1,2)] getRelationship_ChildParent[OF assms(2,1)]
    using assms(3) by auto
  show "\<forall>r r'. getRelationship s a b = Some r \<and> rel_type r = ParentChild
                  \<and> getRelationship s b a = Some r' \<and> rel_type r' = ChildParent
               \<longrightarrow> distance r = distance r'"
    using getRelationship_direct_distance by metis
qed

text \<open>A parent and its child.\<close>

theorem relationship_parent_child_symmetric_witness:
  "findById store_parent_child ''p'' = Some 0 \<and> findById store_parent_child ''c'' = Some 1
   \<and> \<not> (parentId (deref store_parent_child 0) = Some ''c''
          \<and> parentId (deref store_parent_child 1) = Some ''p'')
   \<and> map_option rel_type (getRelationship store_parent_child ''p'' ''c'') = Some ParentChild
   \<and> map_option rel_type (getRelationship store_parent_child ''c'' ''p'') = Some ChildParent
   \<and> map_option distance (getRelationship store_parent_child ''p'' ''c'') = Some 1
   \<and> map_option distance (getRelationship store_parent_child ''c'' ''p'') = Some 1"
proof -
  have p: "findById store_parent_child ''p'' = Some 0" by code_simp
  have c: "findById store_parent_child ''c'' = Some 1" by code_simp
  have n: "\<not> (parentId (deref store_parent_child 0) = Some ''c''
          \<and> parentId (deref store_parent_child 1) = Some ''p'')" by code_simp
  have pc: "map_option rel_type (getRelationship store_parent_child ''p'' ''c'') = Some ParentChild"
    by code_simp
  then obtain r where r: "getRelationship store_parent_child ''p'' ''c'' = Some r"
    and rt: "rel_type r = ParentChild" by auto
  from relationship_parent_child_symmetric[OF p c n] r rt
  obtain r' where r': "getRelationship store_parent_child ''c'' ''p'' = Some r'"
    and rt': "rel_type r' = ChildParent" and d: "distance r = distance r'"
    by blast
  have "map_option distance (getRelationship store_parent_child ''p'' ''c'') = Some 1"
    by code_simp
  then show ?thesis using p c n r rt r' rt' d by simp
qed

text \<open>
  C10, as stated, fails on two live topics that name each other as parent: from \<open>b\<close> to
  \<open>a\<close> the type is child-parent, and from \<open>a\<close> to \<open>b\<close> it is child-parent too, not
  parent-child.
\<close>

theorem relationship_mutual_parents:
  "findById store_cycle ''a'' = Some 0 \<and> findById store_cycle ''b'' = Some 1
   \<and> map_option rel_type (getRelationship store_cycle ''b'' ''a'') = Some ChildParent
   \<and> map_option rel_type (getRelationship store_cycle ''a'' ''b'') = Some ChildParent"
  by code_simp


section \<open>Search\<close>

lemma score_jsGuide:
  "foldl (scoreTerm jsGuide) (0, []) (preprocessQuery ''javascript'') = (6, [''content''])"
  by code_simp

lemma score_pyGuide:
  "foldl (scoreTerm pyGuide) (0, []) (preprocessQuery ''javascript'') = (0, [])"
  by code_simp

lemma terms_javascript: "preprocessQuery ''javascript'' = [''javascript'']"
  by code_simp

lemma snippet_jsGuide: "generateSnippet jsGuide [''javascript''] = ''learn javascript''"
  by code_simp

lemma relevance_jsGuide:
  "calculateRelevance [''javascript''] jsGuide = (Num (6 / ln 17), [''content''])"
  using score_jsGuide unfolding calculateRelevance_def terms_javascript
  by (simp add: jsGuide_def new_Topic_def divide_js_def)

lemma relevance_pyGuide:
  "calculateRelevance [''javascript''] pyGuide = (Num 0, [])"
  using score_pyGuide unfolding calculateRelevance_def terms_javascript
  by (simp add: pyGuide_def new_Topic_def divide_js_def)

lemma trim_javascript: "trim ''javascript'' = ''javascript''"
  by code_simp

lemma search_javascript:
  "searchWithRelevance ''javascript'' [jsGuide, pyGuide] =
     [\<lparr> topic = jsGuide, relevance = Num (6 / ln 17), matchedFields = [''content''],
        snippet = ''learn javascript'' \<rparr>]"
  by (simp add: searchWithRelevance_def trim_javascript relevance_jsGuide relevance_pyGuide
        sortByRelevance_def snippet_jsGuide terms_javascript Let_def)

text \<open>
  C6, as amended. Searching the two topics for \<open>javascript\<close> returns exactly one result,
  the topic named \<open>JS Guide\<close>, and its matched fields are the content alone: the query
  occurs in the content and not in the name.
\<close>

theorem search_javascript_matches_content:
  "map (\<lambda>r. (name (topic r), matchedFields r, snippet r))
     (searchWithRelevance ''javascript'' [jsGuide, pyGuide])
   = [(''JS Guide'', [''content''], ''learn javascript'')]"
  unfolding search_javascript by (simp add: jsGuide_def new_Topic_def)

text \<open>C6, as stated, fails: the one result does not have the name among its matched fields.\<close>

theorem search_javascript_name_not_matched:
  "length (searchWithRelevance ''javascript'' [jsGuide, pyGuide]) = 1
   \<and> ''name'' \<notin> set (matchedFields (hd (searchWithRelevance ''javascript'' [jsGuide, pyGuide])))"
  by (simp add: search_javascript)

end
